theory Spec2Isabelle
  imports Complex_Main "HOL-Library.Word" "HOL-Library.AList"
begin

section \<open>Conventions of the embedding\<close>

text \<open>
  The C++ sources compute with IEEE \<open>float\<close> and \<open>double\<close>. Every such value is
  idealised as a \<open>real\<close>: the theorems below are about the data flow and the
  comparisons of the program, not about rounding. C++ \<open>int\<close> values are modelled as
  \<open>int\<close> (no arithmetic here comes near the 32-bit range); where an \<open>int\<close> is
  compared with a \<open>size_t\<close> the conversion to 64 bits is written out.

  Every exception and every use of undefined behaviour in the source is a value of
  type \<open>error\<close>; a function that can fail returns \<open>error + 'a\<close>.
\<close>

datatype error =
    LengthError          \<comment> \<open>\<open>std::length_error\<close> of \<open>vector::reserve\<close>\<close>
  | UndefinedBehaviour   \<comment> \<open>out-of-range access, erase on an empty vector, ...\<close>
  | IndexError           \<comment> \<open>libtorch: index out of range in \<open>gather\<close> / \<open>max\<close>\<close>
  | KeyError             \<comment> \<open>libtorch: \<open>OrderedDict::operator[]\<close> on a missing key\<close>
  | ShapeError           \<comment> \<open>libtorch: tensors whose shapes do not fit\<close>
  | FileError            \<comment> \<open>libtorch: \<open>torch::load\<close> of a file that does not exist\<close>
  | NotANumber           \<comment> \<open>a mean over zero elements\<close>

section \<open>Replay buffer (\<open>replay_buffer.h\<close>)\<close>

record Experience =
  state :: "real list"
  action :: int
  reward :: real
  next_state :: "real list"
  done_flag :: bool

record ReplayBuffer =
  capacity :: int
  buffer :: "Experience list"

text \<open>The usual arithmetic conversion of an \<open>int\<close> to a 64-bit \<open>size_t\<close>.\<close>

definition size_t_of_int :: "int \<Rightarrow> nat" where
  "size_t_of_int i = nat (i mod 2 ^ 64)"

text \<open>
  The constructor stores the capacity and calls \<open>buffer_.reserve(capacity)\<close>; a
  negative \<open>int\<close> converts to a \<open>size_t\<close> above \<open>max_size()\<close>, for which
  \<open>reserve\<close> throws.
\<close>

definition new_ReplayBuffer :: "int \<Rightarrow> error + ReplayBuffer" where
  "new_ReplayBuffer c =
     (if c < 0 then Inl LengthError else Inr \<lparr>capacity = c, buffer = []\<rparr>)"

text \<open>
  \<open>add\<close>: \<open>if (buffer_.size() >= capacity_) buffer_.erase(buffer_.begin());\<close>
  then \<open>emplace_back\<close>. Erasing \<open>begin()\<close> of an empty vector is undefined.
\<close>

definition add ::
  "ReplayBuffer \<Rightarrow> real list \<Rightarrow> int \<Rightarrow> real \<Rightarrow> real list \<Rightarrow> bool \<Rightarrow> error + ReplayBuffer"
where
  "add rb s a r ns d =
     (let e = \<lparr>state = s, action = a, reward = r, next_state = ns, done_flag = d\<rparr> in
      if size_t_of_int (capacity rb) \<le> length (buffer rb)
      then (case buffer rb of
              [] \<Rightarrow> Inl UndefinedBehaviour
            | oldest # rest \<Rightarrow> Inr (rb\<lparr>buffer := rest @ [e]\<rparr>))
      else Inr (rb\<lparr>buffer := buffer rb @ [e]\<rparr>))"

text \<open>\<open>int size() const\<close> and \<open>bool can_sample(int batch_size) const\<close>.\<close>

definition size_rb :: "ReplayBuffer \<Rightarrow> int" where
  "size_rb rb = int (length (buffer rb))"

definition can_sample :: "ReplayBuffer \<Rightarrow> int \<Rightarrow> bool" where
  "can_sample rb batch_size = (size_t_of_int batch_size \<le> length (buffer rb))"

text \<open>A sequence of \<open>add\<close> calls, one per transition, stopping at the first failure.\<close>

fun add_all :: "ReplayBuffer \<Rightarrow> Experience list \<Rightarrow> error + ReplayBuffer" where
  "add_all rb [] = Inr rb"
| "add_all rb (e # es) =
     (case add rb (state e) (action e) (reward e) (next_state e) (done_flag e) of
        Inl err \<Rightarrow> Inl err
      | Inr rb' \<Rightarrow> add_all rb' es)"

text \<open>
  \<open>sample\<close> clears and reserves the five output vectors, builds
  \<open>uniform_int_distribution<>(0, buffer_.size() - 1)\<close> and pushes
  \<open>buffer_[dis(gen)]\<close> \<open>batch_size\<close> times. The random generator is an input of the
  model: \<open>dis i\<close> is the value the \<open>i\<close>-th call \<open>dis(gen)\<close> returns. The output
  vectors are the fields of a \<open>Batch\<close>; the buffer is returned beside them, as the
  method is not \<open>const\<close>.
\<close>

record Batch =
  states :: "real list list"
  actions :: "int list"
  rewards :: "real list"
  next_states :: "real list list"
  dones :: "bool list"

definition empty_batch :: Batch where
  "empty_batch = \<lparr>states = [], actions = [], rewards = [], next_states = [], dones = []\<rparr>"

definition push_back_exp :: "Experience \<Rightarrow> Batch \<Rightarrow> Batch" where
  "push_back_exp e out =
     \<lparr>states = states out @ [state e],
      actions = actions out @ [action e],
      rewards = rewards out @ [reward e],
      next_states = next_states out @ [next_state e],
      dones = dones out @ [done_flag e]\<rparr>"

fun sample_loop :: "Experience list \<Rightarrow> int list \<Rightarrow> Batch \<Rightarrow> error + Batch" where
  "sample_loop buf [] out = Inr out"
| "sample_loop buf (idx # idxs) out =
     (if 0 \<le> idx \<and> idx < int (length buf)
      then sample_loop buf idxs (push_back_exp (buf ! nat idx) out)
      else Inl UndefinedBehaviour)"

definition sample :: "ReplayBuffer \<Rightarrow> int \<Rightarrow> (nat \<Rightarrow> int) \<Rightarrow> error + (ReplayBuffer \<times> Batch)" where
  "sample rb batch_size dis =
     (if batch_size < 0 then Inl LengthError
      else if buffer rb = [] then Inl UndefinedBehaviour
      else (case sample_loop (buffer rb) (map dis [0..<nat batch_size]) empty_batch of
              Inl err \<Rightarrow> Inl err
            | Inr out \<Rightarrow> Inr (rb, out)))"

text \<open>The transition a batch holds at position \<open>j\<close>.\<close>

definition batch_at :: "Batch \<Rightarrow> nat \<Rightarrow> Experience" where
  "batch_at out j =
     \<lparr>state = states out ! j, action = actions out ! j, reward = rewards out ! j,
      next_state = next_states out ! j, done_flag = dones out ! j\<rparr>"

definition batch_len :: "Batch \<Rightarrow> nat \<Rightarrow> bool" where
  "batch_len out n =
     (length (states out) = n \<and> length (actions out) = n \<and> length (rewards out) = n \<and>
      length (next_states out) = n \<and> length (dones out) = n)"

section \<open>Track, vehicle and lap state machine (\<open>racing_trainer.cpp\<close>)\<close>

text \<open>
  A raylib \<open>Color\<close> has four \<open>unsigned char\<close> channels r, g, b, a; an \<open>Image\<close> is
  its width, its height and the colour \<open>GetImageColor\<close> reads at a pixel; a
  \<open>Vector2\<close> is a pair (x, y).
\<close>

datatype Color = Color "8 word" "8 word" "8 word" "8 word"

record Image =
  width :: int
  height :: int
  pixels :: "int \<Rightarrow> int \<Rightarrow> Color"

type_synonym Vector2 = "real \<times> real"

fun IsWall :: "Color \<Rightarrow> bool" where
  "IsWall (Color cr cg cb ca) = (cr = 15 \<and> cg = 15 \<and> cb = 15)"

fun IsTrack :: "Color \<Rightarrow> bool" where
  "IsTrack (Color cr cg cb ca) = (cr = 35 \<and> cg = 35 \<and> cb = 35)"

fun IsGrass :: "Color \<Rightarrow> bool" where
  "IsGrass (Color cr cg cb ca) = (cr = 34 \<and> cg = 177 \<and> cb = 76)"

definition GetFrictionMultiplier :: "Color \<Rightarrow> real" where
  "GetFrictionMultiplier color =
     (if IsWall color then 999 else if IsGrass color then 3
      else if IsTrack color then 1 else 1)"

definition GetImageColor :: "Image \<Rightarrow> int \<Rightarrow> int \<Rightarrow> Color" where
  "GetImageColor img px py = pixels img px py"

record Checkpoint =
  start :: Vector2
  end_pt :: Vector2
  crossed :: bool

definition CheckCrossing :: "Checkpoint \<Rightarrow> Vector2 \<Rightarrow> Vector2 \<Rightarrow> bool" where
  "CheckCrossing cp prevPos currentPos =
     (let x1 = fst prevPos; y1 = snd prevPos;
          x2 = fst currentPos; y2 = snd currentPos;
          x3 = fst (start cp); y3 = snd (start cp);
          x4 = fst (end_pt cp); y4 = snd (end_pt cp);
          denom = (x1 - x2) * (y3 - y4) - (y1 - y2) * (x3 - x4)
      in if \<bar>denom\<bar> < 0.001 then False
         else (let t = ((x1 - x3) * (y3 - y4) - (y1 - y3) * (x3 - x4)) / denom;
                   u = - ((x1 - x2) * (y1 - y3) - (y1 - y2) * (x1 - x3)) / denom
               in 0 \<le> t \<and> t \<le> 1 \<and> 0 \<le> u \<and> u \<le> 1))"

text \<open>The eight checkpoints \<open>main\<close> pushes; index 0 is the start/finish line.\<close>

definition mk_checkpoint :: "Vector2 \<Rightarrow> Vector2 \<Rightarrow> Checkpoint" where
  "mk_checkpoint p q = \<lparr>start = p, end_pt = q, crossed = False\<rparr>"

definition checkpointsTemplate :: "Checkpoint list" where
  "checkpointsTemplate =
     [mk_checkpoint (450, 35) (450, 150),
      mk_checkpoint (719, 260) (850, 260),
      mk_checkpoint (850, 665) (723, 665),
      mk_checkpoint (523, 482) (625, 517),
      mk_checkpoint (409, 438) (295, 413),
      mk_checkpoint (160, 730) (220, 815),
      mk_checkpoint (138, 600) (49, 600),
      mk_checkpoint (138, 205) (49, 205)]"

subsection \<open>Physics of one simulation step\<close>

definition MAX_SPEED :: real where "MAX_SPEED = 300"
definition ACCELERATION :: real where "ACCELERATION = 150"
definition FRICTION :: real where "FRICTION = 50"
definition TURN_SPEED_BASE :: real where "TURN_SPEED_BASE = 3"
definition TURN_SPEED_FACTOR :: real where "TURN_SPEED_FACTOR = 0.3"
definition totalLaps :: int where "totalLaps = 3"

record Car =
  position :: Vector2
  velocity :: Vector2
  angle :: real
  speed :: real

text \<open>The \<open>switch (action)\<close>: (accelerationInput, steeringInput); no default case.\<close>

definition action_inputs :: "int \<Rightarrow> real \<times> real" where
  "action_inputs act =
     (if act = 0 then (1, 0)
      else if act = 1 then (- 0.4, 0)
      else if act = 2 then (0, - 1)
      else if act = 3 then (0, 1)
      else if act = 4 then (1, - 1)
      else if act = 5 then (1, 1)
      else (0, 0))"

text \<open>
  The cast \<open>(int)x\<close> of a float truncates toward zero (positions stay far inside the
  range of \<open>int\<close>, outside of which the cast is undefined).
\<close>

definition to_int :: "real \<Rightarrow> int" where
  "to_int v = (if 0 \<le> v then \<lfloor>v\<rfloor> else \<lceil>v\<rceil>)"

definition in_image :: "Image \<Rightarrow> int \<Rightarrow> int \<Rightarrow> bool" where
  "in_image img px py = (0 \<le> px \<and> px < width img \<and> 0 \<le> py \<and> py < height img)"

definition surface_friction :: "Image \<Rightarrow> Vector2 \<Rightarrow> real" where
  "surface_friction img pos =
     (let checkPixelX = to_int (fst pos); checkPixelY = to_int (snd pos)
      in if in_image img checkPixelX checkPixelY
         then GetFrictionMultiplier (GetImageColor img checkPixelX checkPixelY)
         else 1)"

text \<open>
  Acceleration, friction and the per-surface clamp:
  \<open>speed += accelerationInput * ACCELERATION * DT\<close>, the friction towards zero, then
  \<open>if (speed > maxSpeedOnSurface) ...\<close> and
  \<open>if (speed < -maxSpeedOnSurface * 0.5f) ...\<close>.
\<close>

definition update_speed :: "real \<Rightarrow> real \<Rightarrow> real \<Rightarrow> real \<Rightarrow> real" where
  "update_speed DT accelerationInput surfaceFriction speed0 =
     (let s1 = speed0 + accelerationInput * ACCELERATION * DT;
          frictionToApply =
            (if accelerationInput = 0 then FRICTION * surfaceFriction else FRICTION);
          s2 = (if 0 < s1 then (let s = s1 - frictionToApply * DT in if s < 0 then 0 else s)
                else if s1 < 0 then (let s = s1 + frictionToApply * DT in if 0 < s then 0 else s)
                else s1);
          maxSpeedOnSurface = (if 2 < surfaceFriction then MAX_SPEED * 0.5 else MAX_SPEED);
          s3 = (if maxSpeedOnSurface < s2 then maxSpeedOnSurface else s2)
      in if s3 < - maxSpeedOnSurface * 0.5 then - maxSpeedOnSurface * 0.5 else s3)"

definition update_angle :: "real \<Rightarrow> real \<Rightarrow> real \<Rightarrow> real \<Rightarrow> real" where
  "update_angle DT steeringInput spd ang =
     (let speedFactor = 1 / (1 + \<bar>spd\<bar> / MAX_SPEED * TURN_SPEED_FACTOR);
          turnRate = TURN_SPEED_BASE * speedFactor
      in if 1 < \<bar>spd\<bar> then ang + steeringInput * turnRate * DT * (spd / \<bar>spd\<bar>) else ang)"

text \<open>
  The collision test after the move: a wall pixel or a position outside the image
  rolls the position back and sets \<open>speed *= -0.3f\<close>.
\<close>

definition hits_wall :: "Image \<Rightarrow> Vector2 \<Rightarrow> bool" where
  "hits_wall img pos =
     (let pixelX = to_int (fst pos); pixelY = to_int (snd pos)
      in if in_image img pixelX pixelY then IsWall (GetImageColor img pixelX pixelY) else True)"

text \<open>
  \<open>physics_step\<close> is the text both loops share (lines 249--319 of
  \<open>EvaluateGreedy\<close>, lines 547--616 of \<open>main\<close>): it returns the new vehicle,
  whether a wall was hit, and the friction multiplier of the surface.
\<close>

definition physics_step :: "Image \<Rightarrow> real \<Rightarrow> int \<Rightarrow> Car \<Rightarrow> Car \<times> bool \<times> real" where
  "physics_step img DT act c =
     (let prevPosition = position c;
          accelerationInput = fst (action_inputs act);
          steeringInput = snd (action_inputs act);
          surfaceFriction = surface_friction img (position c);
          spd = update_speed DT accelerationInput surfaceFriction (speed c);
          ang = update_angle DT steeringInput spd (angle c);
          vel = (cos ang * spd, sin ang * spd);
          pos = (fst (position c) + fst vel * DT, snd (position c) + snd vel * DT);
          hitWall = hits_wall img pos
      in (\<lparr>position = (if hitWall then prevPosition else pos),
           velocity = vel,
           angle = ang,
           speed = (if hitWall then spd * (- 0.3) else spd)\<rparr>,
          hitWall, surfaceFriction))"

subsection \<open>Checkpoint and lap state machine\<close>

text \<open>
  \<open>nextCheckpoint\<close> is an \<open>int\<close> in the source that only ever holds 0, 1 or
  \<open>(nextCheckpoint + 1) % checkpoints.size()\<close>; it is a \<open>nat\<close> here.
\<close>

record Race =
  checkpoints :: "Checkpoint list"
  currentLap :: int
  nextCheckpoint :: nat
  raceFinished :: bool

text \<open>\<open>checkpoints[i].crossed = v\<close>.\<close>

definition set_crossed :: "nat \<Rightarrow> bool \<Rightarrow> Race \<Rightarrow> Race" where
  "set_crossed i v rc =
     rc\<lparr>checkpoints := (checkpoints rc)[i := (checkpoints rc ! i)\<lparr>crossed := v\<rparr>]\<rparr>"

text \<open>The loop \<open>for (i = 1; i < size; i++) if (!checkpoints[i].crossed) ...\<close>.\<close>

definition allCrossed :: "Checkpoint list \<Rightarrow> bool" where
  "allCrossed cps = list_all crossed (drop 1 cps)"

text \<open>
  The state after the first \<open>k\<close> iterations of
  \<open>for (auto& c : checkpoints) c.crossed = false\<close>.
\<close>

definition reset_prefix :: "nat \<Rightarrow> Race \<Rightarrow> Race" where
  "reset_prefix k rc =
     rc\<lparr>checkpoints :=
          map (\<lambda>c. c\<lparr>crossed := False\<rparr>) (take k (checkpoints rc)) @ drop k (checkpoints rc)\<rparr>"

text \<open>
  The block \<open>if (cp.CheckCrossing(prevPosition, position)) { ... }\<close>, with
  \<open>cp = checkpoints[nextCheckpoint]\<close>, as the list of the states it passes through:
  one state after each assignment, in program order. \<open>hit\<close> is the result of
  \<open>CheckCrossing\<close>. The state the block ends in is the last of them.
\<close>

definition lap_writes :: "bool \<Rightarrow> Race \<Rightarrow> Race list" where
  "lap_writes hit rc =
     (let cp = nextCheckpoint rc in
      if \<not> hit then []
      else if nextCheckpoint rc = 0 then
        (if 0 < currentLap rc then
           (if allCrossed (checkpoints rc) then
              (let r1 = set_crossed cp True rc;
                   r2 = r1\<lparr>currentLap := currentLap r1 + 1\<rparr>;
                   rs = map (\<lambda>k. reset_prefix k r2) [1..<Suc (length (checkpoints r2))];
                   r3 = reset_prefix (length (checkpoints r2)) r2;
                   r4 = r3\<lparr>nextCheckpoint := 1\<rparr>
               in [r1, r2] @ rs @ [r4] @
                  (if totalLaps \<le> currentLap r4 then [r4\<lparr>raceFinished := True\<rparr>] else []))
            else [set_crossed cp False rc])
         else
           (let r1 = rc\<lparr>currentLap := 1\<rparr>;
                r2 = set_crossed cp False r1
            in [r1, r2, r2\<lparr>nextCheckpoint := 1\<rparr>]))
      else
        (if 0 < currentLap rc \<and> nextCheckpoint rc \<noteq> 0 then
           (let r1 = set_crossed cp True rc
            in [r1, r1\<lparr>nextCheckpoint :=
                         (nextCheckpoint r1 + 1) mod length (checkpoints r1)\<rparr>])
         else [set_crossed cp False rc]))"

definition lap_update :: "bool \<Rightarrow> Race \<Rightarrow> Race" where
  "lap_update hit rc = last (rc # lap_writes hit rc)"

subsection \<open>One simulation step and one episode\<close>

text \<open>
  \<open>wallHits\<close> and \<open>grassFrames\<close> are the counters of \<open>EvaluateGreedy\<close>; \<open>main\<close>
  uses the same two conditions for its reward. The reward arithmetic, the replay
  buffer and the learner of \<open>main\<close> write none of the variables below, and are
  modelled in their own sections.
\<close>

record Sim =
  car :: Car
  race :: Race
  steps :: nat
  wallHits :: nat
  grassFrames :: nat

definition episode_init :: "Checkpoint list \<Rightarrow> Sim" where
  "episode_init template =
     \<lparr>car = \<lparr>position = (430, 92), velocity = (0, 0), angle = 0, speed = 0\<rparr>,
      race = \<lparr>checkpoints = map (\<lambda>c. c\<lparr>crossed := False\<rparr>) template,
              currentLap = - 1, nextCheckpoint = 0, raceFinished = False\<rparr>,
      steps = 0, wallHits = 0, grassFrames = 0\<rparr>"

text \<open>
  Binding \<open>Checkpoint& cp = checkpoints[nextCheckpoint]\<close> with an index outside the
  vector is undefined behaviour.
\<close>

definition sim_step :: "Image \<Rightarrow> real \<Rightarrow> int \<Rightarrow> Sim \<Rightarrow> error + Sim" where
  "sim_step img DT act s =
     (let prevPosition = position (car s);
          (c', hitWall, surfaceFriction) = physics_step img DT act (car s)
      in if length (checkpoints (race s)) \<le> nextCheckpoint (race s)
         then Inl UndefinedBehaviour
         else
           (let cp = checkpoints (race s) ! nextCheckpoint (race s);
                hit = CheckCrossing cp prevPosition (position c')
            in Inr \<lparr>car = c',
                    race = lap_update hit (race s),
                    steps = steps s + 1,
                    wallHits = (if hitWall then wallHits s + 1 else wallHits s),
                    grassFrames =
                      (if 2 < surfaceFriction then grassFrames s + 1 else grassFrames s)\<rparr>))"

text \<open>
  The loop \<open>while (!raceFinished && steps < max_steps)\<close> over the actions the policy
  chooses, one per iteration. The list of actions may end before the loop condition
  fails: that is the early \<open>break\<close> of the stuck detector, or the interrupt flag, of
  \<open>main\<close>.
\<close>

fun run_episode :: "Image \<Rightarrow> real \<Rightarrow> nat \<Rightarrow> int list \<Rightarrow> Sim \<Rightarrow> error + Sim" where
  "run_episode img DT max_steps [] s = Inr s"
| "run_episode img DT max_steps (act # acts) s =
     (if raceFinished (race s) \<or> max_steps \<le> steps s then Inr s
      else (case sim_step img DT act s of
              Inl err \<Rightarrow> Inl err
            | Inr s' \<Rightarrow> run_episode img DT max_steps acts s'))"

text \<open>\<open>stats.episode_laps.push_back(currentLap)\<close> after the episode loop.\<close>

definition recorded_laps :: "Sim \<Rightarrow> int" where
  "recorded_laps s = currentLap (race s)"

subsection \<open>Invariant of the lap state machine\<close>

text \<open>
  What holds of the race state between two simulation steps: there are at least two
  checkpoints, the awaited checkpoint exists, checkpoint 0 is not flagged, the lap
  counter is not 0, and while the race has not started the awaited checkpoint is the
  start line.
\<close>

definition race_inv :: "Race \<Rightarrow> bool" where
  "race_inv rc =
     (2 \<le> length (checkpoints rc) \<and> nextCheckpoint rc < length (checkpoints rc) \<and>
      \<not> crossed (checkpoints rc ! 0) \<and> currentLap rc \<noteq> 0 \<and>
      (0 < currentLap rc \<or> nextCheckpoint rc = 0))"


section \<open>Double-DQN learner (\<open>dqn.h\<close>)\<close>

text \<open>
  libtorch is not part of the repository. What the learner uses of it is modelled
  over the reals as follows. A tensor is its shape and its elements in row-major
  order. \<open>copy_\<close> and the elementwise arithmetic are modelled for tensors of equal
  shape and report \<open>ShapeError\<close> otherwise (broadcasting between different shapes is
  not modelled). A \<open>torch::nn::Linear\<close> computes \<open>y\<^sub>j = (\<Sum>\<^sub>i x\<^sub>i W\<^sub>j\<^sub>i) + b\<^sub>j\<close> from its
  weight of shape \<open>[out, in]\<close> and its bias of shape \<open>[out]\<close>.
\<close>

record Tensor =
  shape :: "nat list"
  elems :: "real list"

record Linear =
  weight :: Tensor
  bias :: Tensor

record DQNNet =
  fc1 :: Linear
  fc2 :: Linear
  fc3 :: Linear

definition bind_err :: "error + 'a \<Rightarrow> ('a \<Rightarrow> error + 'b) \<Rightarrow> error + 'b" where
  "bind_err m f = (case m of Inl e \<Rightarrow> Inl e | Inr v \<Rightarrow> f v)"

fun map_err :: "('a \<Rightarrow> error + 'b) \<Rightarrow> 'a list \<Rightarrow> error + 'b list" where
  "map_err f [] = Inr []"
| "map_err f (x # xs) =
     bind_err (f x) (\<lambda>y. bind_err (map_err f xs) (\<lambda>ys. Inr (y # ys)))"

text \<open>
  \<open>torch::nn::Linear(n_in, n_out)\<close>: the initial values are random; they are the
  inputs \<open>w0\<close> and \<open>b0\<close> of the model.
\<close>

definition new_Linear :: "nat \<Rightarrow> nat \<Rightarrow> (nat \<Rightarrow> real) \<Rightarrow> (nat \<Rightarrow> real) \<Rightarrow> Linear" where
  "new_Linear n_in n_out w0 b0 =
     \<lparr>weight = \<lparr>shape = [n_out, n_in], elems = map w0 [0..<n_out * n_in]\<rparr>,
      bias = \<lparr>shape = [n_out], elems = map b0 [0..<n_out]\<rparr>\<rparr>"

text \<open>\<open>DQNNetImpl(state_size, action_size)\<close>: three layers with 64 hidden units.\<close>

definition new_DQNNet :: "nat \<Rightarrow> nat \<Rightarrow> (string \<Rightarrow> nat \<Rightarrow> real) \<Rightarrow> DQNNet" where
  "new_DQNNet n_state n_action init =
     \<lparr>fc1 = new_Linear n_state 64 (init ''fc1.weight'') (init ''fc1.bias''),
      fc2 = new_Linear 64 64 (init ''fc2.weight'') (init ''fc2.bias''),
      fc3 = new_Linear 64 n_action (init ''fc3.weight'') (init ''fc3.bias'')\<rparr>"

definition Linear_forward :: "Linear \<Rightarrow> real list \<Rightarrow> error + real list" where
  "Linear_forward l x =
     (case shape (weight l) of
        [n_out, n_in] \<Rightarrow>
          if length x \<noteq> n_in \<or> shape (bias l) \<noteq> [n_out] then Inl ShapeError
          else Inr (map (\<lambda>j. (\<Sum>i\<leftarrow>[0..<n_in]. x ! i * elems (weight l) ! (j * n_in + i))
                              + elems (bias l) ! j) [0..<n_out])
      | _ \<Rightarrow> Inl ShapeError)"

definition relu :: "real list \<Rightarrow> real list" where
  "relu x = map (max 0) x"

text \<open>\<open>DQNNetImpl::forward\<close> on one row of the input tensor.\<close>

definition forward :: "DQNNet \<Rightarrow> real list \<Rightarrow> error + real list" where
  "forward net x =
     bind_err (Linear_forward (fc1 net) x) (\<lambda>h1.
     bind_err (Linear_forward (fc2 net) (relu h1)) (\<lambda>h2.
     Linear_forward (fc3 net) (relu h2)))"

text \<open>\<open>forward\<close> on a tensor of shape \<open>[B, n]\<close>, given as its \<open>B\<close> rows.\<close>

definition forward_batch :: "DQNNet \<Rightarrow> real list list \<Rightarrow> error + real list list" where
  "forward_batch net rows = map_err (forward net) rows"

text \<open>\<open>named_parameters()\<close>: the ordered dictionary of the six parameter tensors.\<close>

definition named_parameters :: "DQNNet \<Rightarrow> (string \<times> Tensor) list" where
  "named_parameters net =
     [(''fc1.weight'', weight (fc1 net)), (''fc1.bias'', bias (fc1 net)),
      (''fc2.weight'', weight (fc2 net)), (''fc2.bias'', bias (fc2 net)),
      (''fc3.weight'', weight (fc3 net)), (''fc3.bias'', bias (fc3 net))]"

text \<open>The parameter tensor of a network named \<open>key\<close> is replaced by \<open>t\<close>.\<close>

definition set_param :: "string \<Rightarrow> Tensor \<Rightarrow> DQNNet \<Rightarrow> DQNNet" where
  "set_param key t net =
     (if key = ''fc1.weight'' then net\<lparr>fc1 := (fc1 net)\<lparr>weight := t\<rparr>\<rparr>
      else if key = ''fc1.bias'' then net\<lparr>fc1 := (fc1 net)\<lparr>bias := t\<rparr>\<rparr>
      else if key = ''fc2.weight'' then net\<lparr>fc2 := (fc2 net)\<lparr>weight := t\<rparr>\<rparr>
      else if key = ''fc2.bias'' then net\<lparr>fc2 := (fc2 net)\<lparr>bias := t\<rparr>\<rparr>
      else if key = ''fc3.weight'' then net\<lparr>fc3 := (fc3 net)\<lparr>weight := t\<rparr>\<rparr>
      else if key = ''fc3.bias'' then net\<lparr>fc3 := (fc3 net)\<lparr>bias := t\<rparr>\<rparr>
      else net)"

text \<open>
  \<open>target_params[key].copy_(src)\<close>: \<open>OrderedDict::operator[]\<close> throws on a missing
  key; \<open>copy_\<close> overwrites the elements and keeps the shape.
\<close>

definition param_copy :: "DQNNet \<Rightarrow> string \<Rightarrow> Tensor \<Rightarrow> error + DQNNet" where
  "param_copy net key src =
     (case map_of (named_parameters net) key of
        None \<Rightarrow> Inl KeyError
      | Some t \<Rightarrow>
          if shape src \<noteq> shape t then Inl ShapeError
          else Inr (set_param key (t\<lparr>elems := elems src\<rparr>) net))"

text \<open>\<open>copy_weights(source, target)\<close>: the loop over \<open>source_params\<close>.\<close>

fun copy_loop :: "(string \<times> Tensor) list \<Rightarrow> DQNNet \<Rightarrow> error + DQNNet" where
  "copy_loop [] tgt = Inr tgt"
| "copy_loop ((key, src) # ps) tgt = bind_err (param_copy tgt key src) (copy_loop ps)"

definition copy_weights :: "DQNNet \<Rightarrow> DQNNet \<Rightarrow> error + DQNNet" where
  "copy_weights source target = copy_loop (named_parameters source) target"

text \<open>
  \<open>soft_update_target(tau)\<close>: for every parameter of the policy network,
  \<open>target.copy_(tau * param.value() + (1.0f - tau) * target)\<close>.
\<close>

definition mix_tensor :: "real \<Rightarrow> Tensor \<Rightarrow> Tensor \<Rightarrow> Tensor" where
  "mix_tensor tau p t =
     \<lparr>shape = shape t,
      elems = map (\<lambda>(pv, tv). tau * pv + (1 - tau) * tv) (zip (elems p) (elems t))\<rparr>"

definition blend :: "real \<Rightarrow> Tensor \<Rightarrow> Tensor \<Rightarrow> error + Tensor" where
  "blend tau p t = (if shape p \<noteq> shape t then Inl ShapeError else Inr (mix_tensor tau p t))"

fun soft_update_loop :: "real \<Rightarrow> (string \<times> Tensor) list \<Rightarrow> DQNNet \<Rightarrow> error + DQNNet" where
  "soft_update_loop tau [] tgt = Inr tgt"
| "soft_update_loop tau ((key, p) # ps) tgt =
     (case map_of (named_parameters tgt) key of
        None \<Rightarrow> Inl KeyError
      | Some t \<Rightarrow>
          bind_err (blend tau p t) (\<lambda>mixed.
          bind_err (param_copy tgt key mixed) (soft_update_loop tau ps)))"

text \<open>
  The learner. \<open>optimizer_lrs\<close> is the learning rate of each parameter group of the
  Adam optimizer, which is built over \<open>policy_net_->parameters()\<close> alone (one group).
\<close>

record DQN =
  state_size :: nat
  action_size :: nat
  gamma :: real
  policy_net :: DQNNet
  target_net :: DQNNet
  optimizer_lrs :: "real list"
  current_lr :: real

definition new_DQN ::
  "nat \<Rightarrow> nat \<Rightarrow> real \<Rightarrow> real \<Rightarrow> (string \<Rightarrow> nat \<Rightarrow> real) \<Rightarrow> (string \<Rightarrow> nat \<Rightarrow> real) \<Rightarrow> error + DQN"
where
  "new_DQN n_state n_action learning_rate g init_policy init_target =
     bind_err (copy_weights (new_DQNNet n_state n_action init_policy)
                            (new_DQNNet n_state n_action init_target)) (\<lambda>tgt.
     Inr \<lparr>state_size = n_state, action_size = n_action, gamma = g,
          policy_net = new_DQNNet n_state n_action init_policy, target_net = tgt,
          optimizer_lrs = [learning_rate], current_lr = learning_rate\<rparr>)"

definition set_learning_rate :: "real \<Rightarrow> DQN \<Rightarrow> DQN" where
  "set_learning_rate new_lr d =
     d\<lparr>current_lr := new_lr, optimizer_lrs := map (\<lambda>lr. new_lr) (optimizer_lrs d)\<rparr>"

definition get_learning_rate :: "DQN \<Rightarrow> real" where
  "get_learning_rate d = current_lr d"

definition soft_update_target :: "real \<Rightarrow> DQN \<Rightarrow> error + DQN" where
  "soft_update_target tau d =
     bind_err (soft_update_loop tau (named_parameters (policy_net d)) (target_net d))
       (\<lambda>tgt. Inr (d\<lparr>target_net := tgt\<rparr>))"

text \<open>
  \<open>predict\<close>: a forward pass of the policy network on a \<open>[1, n]\<close> tensor, then
  \<open>result[i] = accessor[0][i]\<close> for \<open>i < action_size_\<close>. The size test before it only
  prints a warning.
\<close>

definition predict :: "DQN \<Rightarrow> real list \<Rightarrow> error + real list" where
  "predict d x =
     bind_err (forward (policy_net d) x) (\<lambda>q_values.
     if length q_values < action_size d then Inl UndefinedBehaviour
     else Inr (map (\<lambda>i. q_values ! i) [0..<action_size d]))"

subsection \<open>Training step\<close>

text \<open>
  \<open>torch::from_blob(flat.data(), {B, n})\<close> reads \<open>B * n\<close> floats: reading past the
  end of the vector is undefined. The result is given as its rows.
\<close>

definition from_blob :: "'a list \<Rightarrow> nat \<Rightarrow> nat \<Rightarrow> error + 'a list list" where
  "from_blob flat B n =
     (if length flat < B * n then Inl UndefinedBehaviour
      else Inr (map (\<lambda>i. take n (drop (i * n) flat)) [0..<B]))"

text \<open>The same for a tensor of shape \<open>[B, 1]\<close>, given as its column.\<close>

definition from_blob_col :: "'a list \<Rightarrow> nat \<Rightarrow> error + 'a list" where
  "from_blob_col xs B = (if length xs < B then Inl UndefinedBehaviour else Inr (take B xs))"

text \<open>\<open>q.gather(1, index)\<close> with an index tensor of shape \<open>[B, 1]\<close>.\<close>

definition gather_row :: "real list \<times> int \<Rightarrow> error + real" where
  "gather_row = (\<lambda>(row, i).
     if 0 \<le> i \<and> i < int (length row) then Inr (row ! nat i) else Inl IndexError)"

definition gather :: "real list list \<Rightarrow> int list \<Rightarrow> error + real list" where
  "gather q index = map_err gather_row (zip q index)"

text \<open>
  \<open>std::get<1>(q.max(1, true))\<close>: for every row the index of a largest element (the
  first one, in this model); a row without elements is an error.
\<close>

fun argmax_from :: "real list \<Rightarrow> nat \<Rightarrow> nat \<Rightarrow> real \<Rightarrow> nat" where
  "argmax_from [] i best_i best = best_i"
| "argmax_from (v # vs) i best_i best =
     (if best < v then argmax_from vs (Suc i) i v else argmax_from vs (Suc i) best_i best)"

definition argmax :: "real list \<Rightarrow> error + nat" where
  "argmax row = (case row of [] \<Rightarrow> Inl IndexError | v # vs \<Rightarrow> Inr (argmax_from vs 1 0 v))"

definition max_indices :: "real list list \<Rightarrow> error + nat list" where
  "max_indices q = map_err argmax q"

text \<open>\<open>torch::mse_loss\<close> with the default reduction: the mean of the squared differences.\<close>

definition mse_loss :: "real list \<Rightarrow> real list \<Rightarrow> real" where
  "mse_loss xs ys = (\<Sum>(x, y)\<leftarrow>zip xs ys. (x - y)\<^sup>2) / real (length xs)"

text \<open>
  \<open>rewards + gamma * next_q * (1 - dones)\<close>, elementwise on three \<open>[B, 1]\<close> tensors.
\<close>

definition td_target :: "real \<Rightarrow> real list \<Rightarrow> real list \<Rightarrow> real list \<Rightarrow> real list" where
  "td_target g rs next_q ds =
     map (\<lambda>(r, nq, dn). r + g * nq * (1 - dn)) (zip rs (zip next_q ds))"

text \<open>
  \<open>zero_grad\<close>, \<open>backward\<close>, \<open>clip_grad_norm_\<close> and \<open>optimizer_->step()\<close>: Adam
  rewrites, in place, the elements of the tensors it was built over: the parameters of
  the policy network. Gradients are not modelled; \<open>adam key i\<close> is the value the step
  leaves in element \<open>i\<close> of the parameter named \<open>key\<close>.
\<close>

definition step_tensor :: "(nat \<Rightarrow> real) \<Rightarrow> Tensor \<Rightarrow> Tensor" where
  "step_tensor f t = t\<lparr>elems := map f [0..<length (elems t)]\<rparr>"

definition step_linear :: "(nat \<Rightarrow> real) \<Rightarrow> (nat \<Rightarrow> real) \<Rightarrow> Linear \<Rightarrow> Linear" where
  "step_linear fw fb l = \<lparr>weight = step_tensor fw (weight l), bias = step_tensor fb (bias l)\<rparr>"

definition optimizer_step :: "(string \<Rightarrow> nat \<Rightarrow> real) \<Rightarrow> DQNNet \<Rightarrow> DQNNet" where
  "optimizer_step adam net =
     \<lparr>fc1 = step_linear (adam ''fc1.weight'') (adam ''fc1.bias'') (fc1 net),
      fc2 = step_linear (adam ''fc2.weight'') (adam ''fc2.bias'') (fc2 net),
      fc3 = step_linear (adam ''fc3.weight'') (adam ''fc3.bias'') (fc3 net)\<rparr>"

text \<open>
  The quantities \<open>train\<close> computes before the optimizer step: the policy network's
  Q-value at the taken action, and the bootstrap target.
\<close>

definition current_q_of :: "DQN \<Rightarrow> real list list \<Rightarrow> int list \<Rightarrow> error + real list" where
  "current_q_of d states_tensor actions_tensor =
     bind_err (forward_batch (policy_net d) states_tensor) (\<lambda>q. gather q actions_tensor)"

definition next_q_of :: "DQN \<Rightarrow> real list list \<Rightarrow> error + real list" where
  "next_q_of d next_states_tensor =
     bind_err (forward_batch (policy_net d) next_states_tensor) (\<lambda>next_q_policy.
     bind_err (max_indices next_q_policy) (\<lambda>next_actions.
     bind_err (forward_batch (target_net d) next_states_tensor) (\<lambda>next_q_target.
     gather next_q_target (map int next_actions))))"

text \<open>
  \<open>train\<close> returns the loss and leaves the learner with the stepped policy network
  and the softly updated target network. A batch size of 0 makes the loss the mean of
  no elements; a negative one is refused by \<open>from_blob\<close>.
\<close>

definition train :: "DQN \<Rightarrow> Batch \<Rightarrow> int \<Rightarrow> (string \<Rightarrow> nat \<Rightarrow> real) \<Rightarrow> error + (real \<times> DQN)" where
  "train d batch batch_size adam =
     (if batch_size < 0 then Inl ShapeError
      else if batch_size = 0 then Inl NotANumber
      else
        (let B = nat batch_size in
         bind_err (from_blob (concat (states batch)) B (state_size d)) (\<lambda>states_tensor.
         bind_err (from_blob_col (actions batch) B) (\<lambda>actions_tensor.
         bind_err (from_blob_col (rewards batch) B) (\<lambda>rewards_tensor.
         bind_err (from_blob (concat (next_states batch)) B (state_size d)) (\<lambda>next_states_tensor.
         bind_err (from_blob_col (map (\<lambda>dn. if dn then 1 else 0) (dones batch)) B) (\<lambda>dones_tensor.
         bind_err (current_q_of d states_tensor actions_tensor) (\<lambda>current_q.
         bind_err (next_q_of d next_states_tensor) (\<lambda>next_q.
         (let target_q = td_target (gamma d) rewards_tensor next_q dones_tensor;
              loss = mse_loss current_q target_q;
              stepped = d\<lparr>policy_net := optimizer_step adam (policy_net d)\<rparr>
          in bind_err (soft_update_target 0.005 stepped) (\<lambda>d'. Inr (loss, d'))))))))))))"

text \<open>
  For stating what \<open>train\<close> computes: the Q-values of a network at an observation,
  the index \<open>max_indices\<close> finds in a row, what it is for an index to be one at which a
  row is largest, and a batch whose vectors fit the learner.
\<close>

definition q_values :: "DQNNet \<Rightarrow> real list \<Rightarrow> real list" where
  "q_values net x = (case forward net x of Inl e \<Rightarrow> [] | Inr q \<Rightarrow> q)"

definition amax :: "real list \<Rightarrow> nat" where
  "amax row = (case argmax row of Inl e \<Rightarrow> 0 | Inr a \<Rightarrow> a)"

definition is_argmax :: "real list \<Rightarrow> nat \<Rightarrow> bool" where
  "is_argmax row a = (a < length row \<and> list_all (\<lambda>v. v \<le> row ! a) row)"

definition valid_batch :: "DQN \<Rightarrow> Batch \<Rightarrow> nat \<Rightarrow> bool" where
  "valid_batch d batch B =
     (batch_len batch B \<and>
      list_all (\<lambda>s. length s = state_size d) (states batch) \<and>
      list_all (\<lambda>s. length s = state_size d) (next_states batch) \<and>
      list_all (\<lambda>a. 0 \<le> a \<and> a < int (action_size d)) (actions batch))"

subsection \<open>Saving and loading\<close>

text \<open>
  The file system is a map from paths to archives; an archive holds named tensors.
  \<open>torch::save(module, path)\<close> writes the module's named parameters.
  \<open>torch::load(module, path)\<close> reads, for every parameter name of the module, the
  tensor of that name from the archive into the module; it throws when the file or a
  name is missing.
\<close>

type_synonym files = "string \<Rightarrow> (string \<times> Tensor) list option"

definition torch_save :: "DQNNet \<Rightarrow> string \<Rightarrow> files \<Rightarrow> files" where
  "torch_save net path fs = fs(path \<mapsto> named_parameters net)"

fun load_loop :: "string list \<Rightarrow> (string \<times> Tensor) list \<Rightarrow> DQNNet \<Rightarrow> error + DQNNet" where
  "load_loop [] archive net = Inr net"
| "load_loop (key # keys) archive net =
     (case map_of archive key of
        None \<Rightarrow> Inl KeyError
      | Some t \<Rightarrow> load_loop keys archive (set_param key t net))"

definition torch_load :: "DQNNet \<Rightarrow> string \<Rightarrow> files \<Rightarrow> error + DQNNet" where
  "torch_load net path fs =
     (case fs path of
        None \<Rightarrow> Inl FileError
      | Some archive \<Rightarrow> load_loop (map fst (named_parameters net)) archive net)"

definition save_model :: "DQN \<Rightarrow> string \<Rightarrow> files \<Rightarrow> files" where
  "save_model d path fs = torch_save (policy_net d) path fs"

definition load_model :: "DQN \<Rightarrow> string \<Rightarrow> files \<Rightarrow> error + DQN" where
  "load_model d path fs =
     bind_err (torch_load (policy_net d) path fs) (\<lambda>loaded.
     bind_err (copy_weights loaded (target_net d)) (\<lambda>tgt.
     Inr (d\<lparr>policy_net := loaded, target_net := tgt\<rparr>)))"

text \<open>The shapes of the six parameter tensors of a network, in order.\<close>

definition param_shapes :: "DQNNet \<Rightarrow> nat list list" where
  "param_shapes net = map (\<lambda>(key, t). shape t) (named_parameters net)"

text \<open>The six parameter tensors, and the shape and number of elements of each.\<close>

definition params :: "DQNNet \<Rightarrow> Tensor list" where
  "params net = map snd (named_parameters net)"

definition layout :: "DQNNet \<Rightarrow> (nat list \<times> nat) list" where
  "layout net = map (\<lambda>t. (shape t, length (elems t))) (params net)"

text \<open>The shapes \<open>DQNNetImpl(n_state, n_action)\<close> gives its parameters.\<close>

definition dims :: "nat \<Rightarrow> nat \<Rightarrow> nat list list" where
  "dims n_state n_action = [[64, n_state], [64], [64, 64], [64], [n_action, 64], [n_action]]"


section \<open>Training orchestrator (\<open>main\<close> of \<open>racing_trainer.cpp\<close>)\<close>

text \<open>
  The variables of \<open>main\<close> that outlive an episode and that the learning-rate
  schedule and the selection of the best models read or write.
\<close>

record Trainer =
  dqn :: DQN
  lr_dropped_once :: bool
  lr_dropped_twice :: bool
  episode_finishes :: "int list"
  best_finish_rate :: real
  best_time_avg_steps_finish :: real
  best_score :: real

definition LEARNING_RATE :: real where "LEARNING_RATE = 0.001"
definition EVAL_EPISODES :: int where "EVAL_EPISODES = 20"
definition FINISH_RATE_MIN_IMPROVEMENT :: int where "FINISH_RATE_MIN_IMPROVEMENT = 2"
definition SCORE_MIN_IMPROVEMENT :: real where "SCORE_MIN_IMPROVEMENT = 500"

text \<open>
  The state before the first episode. \<open>d\<close> is the learner after
  \<open>DQN dqn(STATE_SIZE, ACTION_SIZE, LEARNING_RATE, GAMMA)\<close> and
  \<open>dqn.load_model("models/best_time.pt")\<close>; then \<open>dqn.set_learning_rate(1e-4f)\<close>.
\<close>

definition trainer_init :: "DQN \<Rightarrow> Trainer" where
  "trainer_init d =
     \<lparr>dqn = set_learning_rate (1 / 10000) d,
      lr_dropped_once = False, lr_dropped_twice = False, episode_finishes = [],
      best_finish_rate = - 1, best_time_avg_steps_finish = 10 ^ 18, best_score = - (10 ^ 18)\<rparr>"

text \<open>
  The end of an episode: \<open>stats.episode_finishes.push_back(raceFinished ? 1 : 0)\<close> and
  the two blocks of the learning-rate schedule. \<open>fin\<close> is \<open>raceFinished\<close>.
\<close>

definition end_of_episode :: "bool \<Rightarrow> Trainer \<Rightarrow> Trainer" where
  "end_of_episode fin t =
     (let t1 = t\<lparr>episode_finishes := episode_finishes t @ [if fin then 1 else 0]\<rparr>;
          t2 = (if fin \<and> \<not> lr_dropped_once t1
                then t1\<lparr>dqn := set_learning_rate (3 / 10000) (dqn t1), lr_dropped_once := True\<rparr>
                else t1)
      in if \<not> lr_dropped_twice t2 \<and> 20 \<le> length (episode_finishes t2)
         then (let countFin = sum_list (drop (length (episode_finishes t2) - 20) (episode_finishes t2));
                   finishRate20 = real_of_int countFin / 20
               in if 0.5 \<le> finishRate20
                  then t2\<lparr>dqn := set_learning_rate (1 / 10000) (dqn t2), lr_dropped_twice := True\<rparr>
                  else t2)
         else t2)"

text \<open>The learning rate after each episode of a run, oldest first.\<close>

fun lr_trace :: "Trainer \<Rightarrow> bool list \<Rightarrow> real list" where
  "lr_trace t [] = []"
| "lr_trace t (fin # fins) =
     get_learning_rate (dqn (end_of_episode fin t)) # lr_trace (end_of_episode fin t) fins"

subsection \<open>Evaluation result and selection of the best models\<close>

record EvalResult =
  episodes :: int
  finishes :: int
  finish_rate :: real
  avg_laps :: real
  avg_steps_finish :: real
  avg_steps_all :: real
  avg_wall_hits :: real
  avg_grass_frames :: real
  avg_score :: real

text \<open>\<open>std::round\<close> rounds halfway cases away from zero; the cast to \<open>int\<close> follows.\<close>

definition cpp_round :: "real \<Rightarrow> int" where
  "cpp_round v = (if 0 \<le> v then \<lfloor>v + 1 / 2\<rfloor> else \<lceil>v - 1 / 2\<rceil>)"

text \<open>
  The three acceptance blocks a milestone runs after \<open>EvaluateGreedy\<close>, in program
  order: best finish rate, best time, best score. The result is the new state and the
  three flags \<open>save_finish_rate\<close>, \<open>save_time\<close>, \<open>save_score\<close>.
\<close>

definition accept_finish_rate :: "EvalResult \<Rightarrow> Trainer \<Rightarrow> bool" where
  "accept_finish_rate ev t =
     (let best_finishes_int = cpp_round (best_finish_rate t * real_of_int EVAL_EPISODES)
      in if best_finish_rate t < 0 then True
         else if best_finishes_int + FINISH_RATE_MIN_IMPROVEMENT \<le> finishes ev then True
         else if best_finish_rate t < finish_rate ev \<and> best_finishes_int < finishes ev then True
         else False)"

definition accept_time :: "EvalResult \<Rightarrow> Trainer \<Rightarrow> bool" where
  "accept_time ev t =
     (if 0 < finishes ev
      then (if 10 ^ 17 \<le> best_time_avg_steps_finish t then True
            else if avg_steps_finish ev + 50 < best_time_avg_steps_finish t then True
            else False)
      else False)"

definition accept_score :: "EvalResult \<Rightarrow> Trainer \<Rightarrow> bool" where
  "accept_score ev t =
     (if best_score t \<le> - (10 ^ 17) then True
      else if best_score t + SCORE_MIN_IMPROVEMENT < avg_score ev then True
      else if best_score t < avg_score ev \<and> best_finish_rate t < finish_rate ev then True
      else False)"

definition milestone_select :: "EvalResult \<Rightarrow> Trainer \<Rightarrow> Trainer \<times> bool \<times> bool \<times> bool" where
  "milestone_select ev t =
     (let save_finish_rate = accept_finish_rate ev t;
          t1 = (if save_finish_rate then t\<lparr>best_finish_rate := finish_rate ev\<rparr> else t);
          save_time = accept_time ev t1;
          t2 = (if save_time then t1\<lparr>best_time_avg_steps_finish := avg_steps_finish ev\<rparr> else t1);
          save_score = accept_score ev t2;
          t3 = (if save_score then t2\<lparr>best_score := avg_score ev\<rparr> else t2)
      in (t3, save_finish_rate, save_time, save_score))"

text \<open>
  The acceptance rule for the best score as the specification words it, with the
  finish rate the record was stored with kept beside the score.
\<close>

definition spec_accept_score :: "bool \<Rightarrow> real \<Rightarrow> real \<Rightarrow> EvalResult \<Rightarrow> bool" where
  "spec_accept_score has_record stored_score stored_finish_rate ev =
     (if has_record
      then stored_score + SCORE_MIN_IMPROVEMENT < avg_score ev \<or>
           (stored_score < avg_score ev \<and> stored_finish_rate < finish_rate ev)
      else True)"

text \<open>
  What \<open>EvaluateGreedy\<close> returns for the final states of its evaluation episodes
  (lines 359--390): the counts, the rates and the averages.
\<close>

definition episode_score :: "Sim \<Rightarrow> real" where
  "episode_score s =
     (if raceFinished (race s) then 100000 else 0) - real (steps s) * 1
       - real (wallHits s) * 200 - real (grassFrames s) * 50"

definition eval_result :: "Sim list \<Rightarrow> EvalResult" where
  "eval_result eps =
     (let n = int (length eps);
          fin = filter (\<lambda>s. raceFinished (race s)) eps;
          finishedCount = int (length fin);
          avg = (\<lambda>total. if 0 < n then total / real_of_int n else 0)
      in \<lparr>episodes = n,
          finishes = finishedCount,
          finish_rate = avg (real_of_int finishedCount),
          avg_laps = avg (real_of_int (\<Sum>s\<leftarrow>eps. currentLap (race s))),
          avg_steps_finish =
            (if 0 < finishedCount
             then real (\<Sum>s\<leftarrow>fin. steps s) / real_of_int finishedCount else 0),
          avg_steps_all = avg (real (\<Sum>s\<leftarrow>eps. steps s)),
          avg_wall_hits = avg (real (\<Sum>s\<leftarrow>eps. wallHits s)),
          avg_grass_frames = avg (real (\<Sum>s\<leftarrow>eps. grassFrames s)),
          avg_score = avg (\<Sum>s\<leftarrow>eps. episode_score s)\<rparr>)"


subsection \<open>Greedy evaluation\<close>

text \<open>
  \<open>CastLIDARRay\<close>: the ray advances by 2 from distance 0 until it leaves the image,
  meets a wall pixel or reaches \<open>maxDistance\<close>.
\<close>

function CastLIDARRay_from :: "Image \<Rightarrow> Vector2 \<Rightarrow> real \<Rightarrow> real \<Rightarrow> real \<Rightarrow> real" where
  "CastLIDARRay_from img pos ang maxDistance distance =
     (if distance < maxDistance
      then (let checkX = fst pos + cos ang * distance;
                checkY = snd pos + sin ang * distance;
                pixelX = to_int checkX;
                pixelY = to_int checkY
            in if \<not> in_image img pixelX pixelY then distance
               else if IsWall (GetImageColor img pixelX pixelY) then distance
               else CastLIDARRay_from img pos ang maxDistance (distance + 2))
      else maxDistance)"
  by pat_completeness auto
termination
  by (relation "measure (\<lambda>(img, pos, ang, maxDistance, distance). nat \<lceil>maxDistance - distance\<rceil>)")
     (auto, linarith)

definition CastLIDARRay :: "Image \<Rightarrow> Vector2 \<Rightarrow> real \<Rightarrow> real \<Rightarrow> real" where
  "CastLIDARRay img pos ang maxDistance = CastLIDARRay_from img pos ang maxDistance 0"

text \<open>
  \<open>GetState\<close>: five base features, thirteen short-range danger values and five
  long-range distances, 23 numbers in all.
\<close>

definition angleOffsets :: "real list" where
  "angleOffsets =
     [- pi / 2, - 5 * pi / 12, - pi / 3, - pi / 4, - pi / 6, - pi / 12, 0,
      pi / 12, pi / 6, pi / 4, pi / 3, 5 * pi / 12, pi / 2]"

definition anticipateOffsets :: "real list" where
  "anticipateOffsets = [- pi / 6, - pi / 12, 0, pi / 12, pi / 6]"

definition GetState :: "Image \<Rightarrow> Vector2 \<Rightarrow> real \<Rightarrow> real \<Rightarrow> real list" where
  "GetState img pos ang spd =
     [spd / MAX_SPEED, sin ang, cos ang,
      fst pos / real_of_int (width img), snd pos / real_of_int (height img)]
     @ map (\<lambda>offset.
              let d = CastLIDARRay img pos (ang + offset) 200;
                  danger = 1 / (d / 50 + 0.1)
              in min 1 danger) angleOffsets
     @ map (\<lambda>offset.
              let d = CastLIDARRay img pos (ang + offset) 900;
                  norm = d / 900
              in if norm < 0 then 0 else if 1 < norm then 1 else norm) anticipateOffsets"

text \<open>
  \<open>std::max_element(q.begin(), q.end()) - q.begin()\<close>: the index of the first largest
  element, 0 for an empty vector.
\<close>

definition max_element_index :: "real list \<Rightarrow> nat" where
  "max_element_index q = (case q of [] \<Rightarrow> 0 | v # vs \<Rightarrow> argmax_from vs 1 0 v)"

text \<open>
  One evaluation episode of \<open>EvaluateGreedy\<close> (lines 224--357): while the race is not
  finished and fewer than \<open>max_steps\<close> steps were made, the action with the largest
  Q-value of the policy network at the current observation is applied. There is no
  exploration and no random draw: the episode is a function of the learner, the track
  and the checkpoints.
\<close>

function greedy_episode :: "DQN \<Rightarrow> Image \<Rightarrow> nat \<Rightarrow> real \<Rightarrow> Sim \<Rightarrow> error + Sim" where
  "greedy_episode d img max_steps DT s =
     (if raceFinished (race s) \<or> max_steps \<le> steps s then Inr s
      else (case predict d (GetState img (position (car s)) (angle (car s)) (speed (car s))) of
              Inl err \<Rightarrow> Inl err
            | Inr qs \<Rightarrow>
                (case sim_step img DT (int (max_element_index qs)) s of
                   Inl err \<Rightarrow> Inl err
                 | Inr s' \<Rightarrow> greedy_episode d img max_steps DT s')))"
  by pat_completeness auto
termination
proof (relation "measure (\<lambda>(d, img, max_steps, DT, s). max_steps - steps s)")
  show "wf (measure (\<lambda>(d, img, max_steps, DT, s). max_steps - steps s))" by simp
next
  fix d img max_steps DT s qs s'
  assume "\<not> (raceFinished (race s) \<or> max_steps \<le> steps s)"
    and "sim_step img DT (int (max_element_index qs)) s = Inr s'"
  then have "steps s < max_steps" "steps s' = steps s + 1"
    by (auto simp: sim_step_def Let_def split: prod.splits if_splits)
  then show "((d, img, max_steps, DT, s'), (d, img, max_steps, DT, s))
      \<in> measure (\<lambda>(d, img, max_steps, DT, s). max_steps - steps s)"
    by simp
qed

text \<open>
  \<open>EvaluateGreedy\<close>: \<open>evalEpisodes\<close> episodes, each from the same initial state, and
  the result computed from their final states. \<open>set_training_mode(false)\<close> changes
  nothing the model keeps.
\<close>

definition EvaluateGreedy ::
  "DQN \<Rightarrow> Image \<Rightarrow> Checkpoint list \<Rightarrow> int \<Rightarrow> nat \<Rightarrow> real \<Rightarrow> error + EvalResult" where
  "EvaluateGreedy d img template evalEpisodes max_steps DT =
     bind_err (map_err (\<lambda>ep. greedy_episode d img max_steps DT (episode_init template))
                 [0..<nat evalEpisodes])
       (\<lambda>finals. Inr ((eval_result finals)\<lparr>episodes := evalEpisodes\<rparr>))"


section \<open>Example inputs\<close>

text \<open>Small concrete values on which the theorems below are instantiated.\<close>

definition demo_exp :: "int \<Rightarrow> Experience" where
  "demo_exp k = \<lparr>state = [real_of_int k], action = k, reward = real_of_int k,
                 next_state = [real_of_int k + 1], done_flag = False\<rparr>"

definition demo_rb :: ReplayBuffer where
  "demo_rb = \<lparr>capacity = 3, buffer = [demo_exp 1, demo_exp 2, demo_exp 3]\<rparr>"

definition demo_dis :: "nat \<Rightarrow> int" where
  "demo_dis i = (if i = 0 then 2 else 0)"

text \<open>
  A track image that is road everywhere, a track of two checkpoints just behind the
  start position, and the states of an episode that drives back over both and then
  forward over the finish line.
\<close>

definition demo_img :: Image where
  "demo_img = \<lparr>width = 2000, height = 200, pixels = (\<lambda>px py. Color 35 35 35 255)\<rparr>"

definition demo_track :: "Checkpoint list" where
  "demo_track = [mk_checkpoint (425, 35) (425, 150), mk_checkpoint (410, 35) (410, 150)]"

definition demo_sim :: "real \<Rightarrow> real \<Rightarrow> int \<Rightarrow> nat \<Rightarrow> bool \<Rightarrow> nat \<Rightarrow> Sim" where
  "demo_sim px spd lap nxt c1 n =
     \<lparr>car = \<lparr>position = (px, 92), velocity = (spd, 0), angle = 0, speed = spd\<rparr>,
      race = \<lparr>checkpoints = [mk_checkpoint (425, 35) (425, 150),
                             (mk_checkpoint (410, 35) (410, 150))\<lparr>crossed := c1\<rparr>],
              currentLap = lap, nextCheckpoint = nxt, raceFinished = False\<rparr>,
      steps = n, wallHits = 0, grassFrames = 0\<rparr>"

text \<open>
  A network of the learner's architecture whose weights are all zero and whose last
  bias is \<open>qs\<close>: its Q-values are \<open>qs\<close> at every observation. A learner for
  observations of length 1 and two actions whose policy and target networks disagree on
  the best action, a batch of one transition, and an optimizer step that leaves 1 in
  every element.
\<close>

definition const_net :: "nat \<Rightarrow> nat \<Rightarrow> real list \<Rightarrow> DQNNet" where
  "const_net n_state n_action qs =
     new_DQNNet n_state n_action (\<lambda>key i. if key = ''fc3.bias'' then qs ! i else 0)"

definition demo_dqn :: DQN where
  "demo_dqn =
     \<lparr>state_size = 1, action_size = 2, gamma = 1 / 2,
      policy_net = const_net 1 2 [1, 5], target_net = const_net 1 2 [7, 2],
      optimizer_lrs = [1 / 1000], current_lr = 1 / 1000\<rparr>"

definition demo_batch :: Batch where
  "demo_batch =
     \<lparr>states = [[0]], actions = [0], rewards = [1], next_states = [[0]], dones = [False]\<rparr>"

definition demo_adam :: "string \<Rightarrow> nat \<Rightarrow> real" where
  "demo_adam key i = 1"






section \<open>Properties of the replay buffer\<close>

lemma size_t_of_int_nonneg: "0 \<le> c \<Longrightarrow> c \<le> 2147483647 \<Longrightarrow> size_t_of_int c = nat c"
  by (simp add: size_t_of_int_def)

lemma add_below:
  "length (buffer rb) < size_t_of_int (capacity rb) \<Longrightarrow>
   add rb s a r ns d = Inr (rb\<lparr>buffer := buffer rb @
      [\<lparr>state = s, action = a, reward = r, next_state = ns, done_flag = d\<rparr>]\<rparr>)"
  by (simp add: add_def)

lemma add_full:
  "size_t_of_int (capacity rb) \<le> length (buffer rb) \<Longrightarrow> buffer rb \<noteq> [] \<Longrightarrow>
   add rb s a r ns d = Inr (rb\<lparr>buffer := tl (buffer rb) @
      [\<lparr>state = s, action = a, reward = r, next_state = ns, done_flag = d\<rparr>]\<rparr>)"
  by (cases "buffer rb") (simp_all add: add_def)

lemma add_all_window:
  assumes "0 < C" "C \<le> 2147483647"
  shows "capacity rb = C \<Longrightarrow> length (buffer rb) \<le> nat C \<Longrightarrow>
         \<exists>rb'. add_all rb es = Inr rb' \<and> capacity rb' = C \<and>
               buffer rb' = drop (length (buffer rb @ es) - nat C) (buffer rb @ es)"
proof (induction es arbitrary: rb)
  case Nil
  then show ?case by simp
next
  case (Cons e es)
  have conv: "size_t_of_int (capacity rb) = nat C"
    using assms Cons.prems(1) by (simp add: size_t_of_int_nonneg)
  show ?case
  proof (cases "length (buffer rb) < nat C")
    case True
    let ?rb1 = "rb\<lparr>buffer := buffer rb @ [e]\<rparr>"
    have step: "add rb (state e) (action e) (reward e) (next_state e) (done_flag e) = Inr ?rb1"
      using True conv by (simp add: add_below)
    have "capacity ?rb1 = C" "length (buffer ?rb1) \<le> nat C"
      using Cons.prems True by simp_all
    from Cons.IH [OF this] obtain rb' where
      "add_all ?rb1 es = Inr rb'" "capacity rb' = C"
      "buffer rb' = drop (length (buffer ?rb1 @ es) - nat C) (buffer ?rb1 @ es)"
      by blast
    then show ?thesis using step by simp
  next
    case False
    then have full: "length (buffer rb) = nat C" using Cons.prems(2) by simp
    then have ne: "buffer rb \<noteq> []" using assms(1) by auto
    let ?rb1 = "rb\<lparr>buffer := tl (buffer rb) @ [e]\<rparr>"
    have step: "add rb (state e) (action e) (reward e) (next_state e) (done_flag e) = Inr ?rb1"
      using full conv ne by (simp add: add_full)
    have pos: "0 < nat C" using assms(1) by simp
    have "capacity ?rb1 = C" "length (buffer ?rb1) \<le> nat C"
      using Cons.prems full pos by simp_all
    from Cons.IH [OF this] obtain rb' where r:
      "add_all ?rb1 es = Inr rb'" "capacity rb' = C"
      "buffer rb' = drop (length (buffer ?rb1 @ es) - nat C) (buffer ?rb1 @ es)"
      by blast
    obtain x xs where xs: "buffer rb = x # xs" using ne by (cases "buffer rb") auto
    have "drop (length (buffer ?rb1 @ es) - nat C) (buffer ?rb1 @ es) =
          drop (length (buffer rb @ e # es) - nat C) (buffer rb @ e # es)"
      using full xs by (simp add: Suc_diff_le)
    then show ?thesis using step r by simp
  qed
qed

text \<open>
  Claim C7. Let a buffer be constructed with a capacity \<open>C\<close> (a positive \<open>int\<close>) and
  let any sequence \<open>es\<close> of transitions be added. No \<open>add\<close> fails, the size never
  exceeds \<open>C\<close>, and the buffer holds exactly the last \<open>C\<close> transitions added (all of
  them while fewer than \<open>C\<close> were added), in insertion order. One more \<open>add\<close> appends
  the new transition and, when the buffer is at capacity, drops exactly its head: the
  oldest transition retained.
\<close>

theorem add_bounded_fifo:
  assumes "0 < C" and "C \<le> 2147483647"
  shows "\<exists>rb0 rb. new_ReplayBuffer C = Inr rb0 \<and> add_all rb0 es = Inr rb \<and>
           size_rb rb \<le> C \<and>
           buffer rb = drop (length es - nat C) es \<and>
           add rb (state e) (action e) (reward e) (next_state e) (done_flag e) =
             Inr (rb\<lparr>buffer := (if size_rb rb = C then tl (buffer rb) else buffer rb) @ [e]\<rparr>)"
proof -
  let ?rb0 = "\<lparr>capacity = C, buffer = []\<rparr>"
  have new: "new_ReplayBuffer C = Inr ?rb0"
    using assms by (simp add: new_ReplayBuffer_def)
  from add_all_window [OF assms, of ?rb0 es] obtain rb where rb:
    "add_all ?rb0 es = Inr rb" "capacity rb = C" "buffer rb = drop (length es - nat C) es"
    by auto
  have len: "length (buffer rb) \<le> nat C" using rb(3) by simp
  then have sz: "size_rb rb \<le> C" using assms by (simp add: size_rb_def)
  have conv: "size_t_of_int (capacity rb) = nat C"
    using assms rb(2) by (simp add: size_t_of_int_nonneg)
  have nxt: "add rb (state e) (action e) (reward e) (next_state e) (done_flag e) =
             Inr (rb\<lparr>buffer := (if size_rb rb = C then tl (buffer rb) else buffer rb) @ [e]\<rparr>)"
  proof (cases "size_rb rb = C")
    case True
    then have "length (buffer rb) = nat C" by (simp add: size_rb_def)
    moreover from this have "buffer rb \<noteq> []" using assms by auto
    ultimately show ?thesis using conv True by (simp add: add_full)
  next
    case False
    then have "length (buffer rb) < nat C" using len assms by (auto simp: size_rb_def)
    then show ?thesis using conv False by (simp add: add_below)
  qed
  show ?thesis using new rb(1,3) sz nxt by blast
qed

theorem add_bounded_fifo_witness:
  "(0::int) < 2 \<and> (2::int) \<le> 2147483647 \<and>
   (\<exists>rb0 rb. new_ReplayBuffer 2 = Inr rb0 \<and>
      add_all rb0 [demo_exp 1, demo_exp 2, demo_exp 3] = Inr rb \<and>
      size_rb rb \<le> 2 \<and> buffer rb = [demo_exp 2, demo_exp 3] \<and>
      add rb (state (demo_exp 4)) (action (demo_exp 4)) (reward (demo_exp 4))
             (next_state (demo_exp 4)) (done_flag (demo_exp 4)) =
        Inr (rb\<lparr>buffer := [demo_exp 3, demo_exp 4]\<rparr>))"
proof -
  have h1: "(0::int) < 2" and h2: "(2::int) \<le> 2147483647" by simp_all
  from add_bounded_fifo [OF h1 h2, of "[demo_exp 1, demo_exp 2, demo_exp 3]" "demo_exp 4"]
  obtain rb0 rb where
    a: "new_ReplayBuffer 2 = Inr rb0"
       "add_all rb0 [demo_exp 1, demo_exp 2, demo_exp 3] = Inr rb"
       "size_rb rb \<le> 2"
       "buffer rb = drop (length [demo_exp 1, demo_exp 2, demo_exp 3] - nat 2)
                      [demo_exp 1, demo_exp 2, demo_exp 3]" and
    b: "add rb (state (demo_exp 4)) (action (demo_exp 4)) (reward (demo_exp 4))
             (next_state (demo_exp 4)) (done_flag (demo_exp 4)) =
        Inr (rb\<lparr>buffer := (if size_rb rb = 2 then tl (buffer rb) else buffer rb) @ [demo_exp 4]\<rparr>)"
    by blast
  have buf: "buffer rb = [demo_exp 2, demo_exp 3]" using a(4) by simp
  then have "size_rb rb = 2" by (simp add: size_rb_def)
  with b buf have "add rb (state (demo_exp 4)) (action (demo_exp 4)) (reward (demo_exp 4))
             (next_state (demo_exp 4)) (done_flag (demo_exp 4)) =
        Inr (rb\<lparr>buffer := [demo_exp 3, demo_exp 4]\<rparr>)" by simp
  with a buf h1 h2 show ?thesis by blast
qed

lemma sample_loop_in_range:
  "list_all (\<lambda>i. 0 \<le> i \<and> i < int (length buf)) idxs \<Longrightarrow>
   sample_loop buf idxs out =
     Inr \<lparr>states = states out @ map (\<lambda>i. state (buf ! nat i)) idxs,
          actions = actions out @ map (\<lambda>i. action (buf ! nat i)) idxs,
          rewards = rewards out @ map (\<lambda>i. reward (buf ! nat i)) idxs,
          next_states = next_states out @ map (\<lambda>i. next_state (buf ! nat i)) idxs,
          dones = dones out @ map (\<lambda>i. done_flag (buf ! nat i)) idxs\<rparr>"
proof (induction idxs arbitrary: out)
  case Nil
  then show ?case by simp
next
  case (Cons i idxs)
  then show ?case by (simp add: push_back_exp_def)
qed

text \<open>
  Claim C9. On a non-empty buffer of size at least \<open>batch_size\<close> (\<open>batch_size \<ge> 0\<close>),
  with every draw of the distribution inside \<open>[0, size - 1]\<close> as
  \<open>uniform_int_distribution\<close> promises, \<open>sample\<close> succeeds, each of its five output
  vectors has exactly \<open>batch_size\<close> entries, the \<open>j\<close>-th output transition is the
  stored transition at the \<open>j\<close>-th drawn index, and the buffer is returned as it was.
\<close>

theorem sample_draws_from_buffer:
  assumes "0 \<le> batch_size" and "batch_size \<le> size_rb rb" and "0 < size_rb rb"
    and "\<forall>i < nat batch_size. 0 \<le> dis i \<and> dis i < size_rb rb"
  shows "\<exists>out. sample rb batch_size dis = Inr (rb, out) \<and>
           batch_len out (nat batch_size) \<and>
           (\<forall>j < nat batch_size.
              batch_at out j = buffer rb ! nat (dis j) \<and> batch_at out j \<in> set (buffer rb))"
proof -
  let ?idxs = "map dis [0..<nat batch_size]"
  let ?out = "\<lparr>states = map (\<lambda>i. state (buffer rb ! nat i)) ?idxs,
          actions = map (\<lambda>i. action (buffer rb ! nat i)) ?idxs,
          rewards = map (\<lambda>i. reward (buffer rb ! nat i)) ?idxs,
          next_states = map (\<lambda>i. next_state (buffer rb ! nat i)) ?idxs,
          dones = map (\<lambda>i. done_flag (buffer rb ! nat i)) ?idxs\<rparr>"
  have ne: "buffer rb \<noteq> []" using assms(3) by (auto simp: size_rb_def)
  have rng: "list_all (\<lambda>i. 0 \<le> i \<and> i < int (length (buffer rb))) ?idxs"
    using assms(4) by (simp add: list_all_iff size_rb_def)
  have loop: "sample_loop (buffer rb) ?idxs empty_batch = Inr ?out"
    using sample_loop_in_range [OF rng, of empty_batch] by (simp add: empty_batch_def)
  have run: "sample rb batch_size dis = Inr (rb, ?out)"
    using assms(1) ne loop by (simp add: sample_def)
  have len: "batch_len ?out (nat batch_size)" by (simp add: batch_len_def)
  have elems: "batch_at ?out j = buffer rb ! nat (dis j) \<and> batch_at ?out j \<in> set (buffer rb)"
    if "j < nat batch_size" for j
  proof -
    have eq: "batch_at ?out j = buffer rb ! nat (dis j)"
      using that by (simp add: batch_at_def)
    have "nat (dis j) < length (buffer rb)"
      using assms(4) that by (auto simp: size_rb_def)
    then show ?thesis using eq by simp
  qed
  show ?thesis using run len elems by blast
qed

theorem sample_draws_from_buffer_witness:
  "(0::int) \<le> 2 \<and> 2 \<le> size_rb demo_rb \<and> 0 < size_rb demo_rb \<and>
   list_all (\<lambda>i. 0 \<le> demo_dis i \<and> demo_dis i < size_rb demo_rb) [0..<nat 2] \<and>
   (\<exists>out. sample demo_rb 2 demo_dis = Inr (demo_rb, out) \<and> batch_len out 2 \<and>
      batch_at out 0 = demo_exp 3 \<and> batch_at out 1 = demo_exp 1)"
proof -
  have h1: "(0::int) \<le> 2" by simp
  have h2: "2 \<le> size_rb demo_rb" and h3: "0 < size_rb demo_rb"
    by (simp_all add: size_rb_def demo_rb_def)
  have h4: "\<forall>i < nat 2. 0 \<le> demo_dis i \<and> demo_dis i < size_rb demo_rb"
    by (simp add: demo_dis_def size_rb_def demo_rb_def)
  have h4': "list_all (\<lambda>i. 0 \<le> demo_dis i \<and> demo_dis i < size_rb demo_rb) [0..<nat 2]"
    using h4 by (simp add: list_all_iff)
  from sample_draws_from_buffer [OF h1 h2 h3 h4] obtain out where
    o: "sample demo_rb 2 demo_dis = Inr (demo_rb, out)" "batch_len out (nat 2)"
       "\<forall>j < nat 2. batch_at out j = buffer demo_rb ! nat (demo_dis j) \<and>
                     batch_at out j \<in> set (buffer demo_rb)"
    by blast
  have "batch_at out 0 = demo_exp 3" "batch_at out 1 = demo_exp 1"
    using o(3) by (simp_all add: demo_dis_def demo_rb_def)
  with o h1 h2 h3 h4' show ?thesis by auto
qed

section \<open>Properties of the simulation\<close>

subsection \<open>The lap block\<close>

lemma lap_update_no_hit: "lap_update False rc = rc"
  by (simp add: lap_update_def lap_writes_def)

lemma length_checkpoints_set_crossed [simp]:
  "length (checkpoints (set_crossed i v rc)) = length (checkpoints rc)"
  by (simp add: set_crossed_def)

lemma map_list_update_same: "(map f xs)[i := f (xs ! i)] = map f xs"
  by (metis list_update_id map_update)

lemma lap_update_complete:
  assumes "nextCheckpoint rc = 0" and "0 < currentLap rc" and "allCrossed (checkpoints rc)"
  shows "currentLap (lap_update True rc) = currentLap rc + 1"
    and "checkpoints (lap_update True rc) = map (\<lambda>c. c\<lparr>crossed := False\<rparr>) (checkpoints rc)"
    and "nextCheckpoint (lap_update True rc) = 1"
  using assms
  by (simp_all add: lap_update_def lap_writes_def Let_def reset_prefix_def set_crossed_def
        map_update map_list_update_same)

lemma lap_update_length:
  "length (checkpoints (lap_update hit rc)) = length (checkpoints rc)"
  by (simp add: lap_update_def lap_writes_def Let_def reset_prefix_def set_crossed_def)

lemma lap_update_currentLap_mono: "currentLap rc \<le> currentLap (lap_update hit rc)"
  by (simp add: lap_update_def lap_writes_def Let_def reset_prefix_def set_crossed_def)

lemma reset_prefix_head:
  "0 < k \<Longrightarrow> checkpoints rc \<noteq> [] \<Longrightarrow> \<not> crossed (checkpoints (reset_prefix k rc) ! 0)"
  by (cases "checkpoints rc"; cases k) (simp_all add: reset_prefix_def)

lemma set_crossed_other:
  "i \<noteq> j \<Longrightarrow> checkpoints (set_crossed i v rc) ! j = checkpoints rc ! j"
  by (simp add: set_crossed_def)

lemma set_crossed_False_head:
  "\<not> crossed (checkpoints rc ! 0) \<Longrightarrow> \<not> crossed (checkpoints (set_crossed i False rc) ! 0)"
proof (cases "i = 0")
  case True
  assume "\<not> crossed (checkpoints rc ! 0)"
  then show ?thesis using True by (cases "checkpoints rc") (simp_all add: set_crossed_def)
next
  case False
  assume "\<not> crossed (checkpoints rc ! 0)"
  then show ?thesis using False by (simp add: set_crossed_other)
qed

text \<open>Which writes of the block can leave checkpoint 0 flagged.\<close>

lemma lap_writes_flag0:
  assumes "checkpoints rc \<noteq> []" and "\<not> crossed (checkpoints rc ! 0)"
    and "w \<in> set (lap_writes hit rc)" and "crossed (checkpoints w ! 0)"
  shows "hit \<and> nextCheckpoint rc = 0 \<and> 0 < currentLap rc \<and> allCrossed (checkpoints rc)"
proof (rule ccontr)
  assume neg: "\<not> ?thesis"
  have f: "\<not> crossed (checkpoints (set_crossed i False rc') ! 0)"
    if "\<not> crossed (checkpoints rc' ! 0)" for i rc'
    using that by (rule set_crossed_False_head)
  have "\<not> crossed (checkpoints w ! 0)"
  proof (cases hit)
    case False
    then show ?thesis using assms(3) by (simp add: lap_writes_def)
  next
    case True
    show ?thesis
    proof (cases "nextCheckpoint rc = 0")
      case nz: True
      show ?thesis
      proof (cases "0 < currentLap rc")
        case lap: True
        then have "\<not> allCrossed (checkpoints rc)" using neg True nz by simp
        then have "w = set_crossed 0 False rc"
          using assms(3) True nz lap by (simp add: lap_writes_def)
        then show ?thesis using f [OF assms(2)] by simp
      next
        case False
        then have "w \<in> {rc\<lparr>currentLap := 1\<rparr>, set_crossed 0 False (rc\<lparr>currentLap := 1\<rparr>),
                       (set_crossed 0 False (rc\<lparr>currentLap := 1\<rparr>))\<lparr>nextCheckpoint := 1\<rparr>}"
          using assms(3) True nz by (simp add: lap_writes_def Let_def)
        moreover have "\<not> crossed (checkpoints (set_crossed 0 False (rc\<lparr>currentLap := 1\<rparr>)) ! 0)"
          using assms(2) by (intro f) simp
        ultimately show ?thesis using assms(2) by auto
      qed
    next
      case nn: False
      show ?thesis
      proof (cases "0 < currentLap rc")
        case True
        then have "w = set_crossed (nextCheckpoint rc) True rc \<or>
              w = (set_crossed (nextCheckpoint rc) True rc)\<lparr>nextCheckpoint :=
                     (nextCheckpoint rc + 1) mod length (checkpoints rc)\<rparr>"
          using assms(3) \<open>hit\<close> nn by (simp add: lap_writes_def Let_def set_crossed_def)
        then have "checkpoints w ! 0 = checkpoints rc ! 0"
          using nn by (auto simp: set_crossed_other)
        then show ?thesis using assms(2) by simp
      next
        case False
        then have "w = set_crossed (nextCheckpoint rc) False rc"
          using assms(3) \<open>hit\<close> nn by (simp add: lap_writes_def Let_def)
        then show ?thesis using f [OF assms(2)] by simp
      qed
    qed
  qed
  then show False using assms(4) by simp
qed

text \<open>The invariant of the lap state machine at step boundaries.\<close>

lemma lap_update_invariant:
  assumes "2 \<le> length (checkpoints rc)" and "nextCheckpoint rc < length (checkpoints rc)"
    and "\<not> crossed (checkpoints rc ! 0)"
  shows "nextCheckpoint (lap_update hit rc) < length (checkpoints rc) \<and>
         \<not> crossed (checkpoints (lap_update hit rc) ! 0)"
proof (cases hit)
  case False
  then show ?thesis using assms by (simp add: lap_update_no_hit)
next
  case True
  have ne: "checkpoints rc \<noteq> []" using assms(1) by auto
  show ?thesis
  proof (cases "nextCheckpoint rc = 0")
    case nz: True
    show ?thesis
    proof (cases "0 < currentLap rc \<and> allCrossed (checkpoints rc)")
      case True
      then show ?thesis
        using lap_update_complete [of rc] nz assms(1) ne \<open>hit\<close> by (simp add: nth_map)
    next
      case False
      then show ?thesis
        using \<open>hit\<close> nz assms ne
        by (cases "checkpoints rc")
           (auto simp: lap_update_def lap_writes_def Let_def set_crossed_def)
    qed
  next
    case nn: False
    have "Suc (nextCheckpoint rc) mod length (checkpoints rc) < length (checkpoints rc)"
      using ne by (intro mod_less_divisor) simp
    then show ?thesis
      using nn \<open>hit\<close> assms
      by (auto simp: lap_update_def lap_writes_def Let_def set_crossed_def)
  qed
qed

lemma lap_update_never_zero:
  "currentLap rc \<noteq> 0 \<Longrightarrow> currentLap (lap_update hit rc) \<noteq> 0"
  by (simp add: lap_update_def lap_writes_def Let_def reset_prefix_def set_crossed_def)

subsection \<open>Steps and episodes\<close>

lemma sim_step_Inr:
  assumes "nextCheckpoint (race s) < length (checkpoints (race s))"
  shows "\<exists>s' hit. sim_step img DT act s = Inr s' \<and> race s' = lap_update hit (race s) \<and>
           car s' = fst (physics_step img DT act (car s)) \<and> steps s' = steps s + 1"
  using assms by (auto simp: sim_step_def Let_def split: prod.splits)

lemma sim_step_race:
  assumes "sim_step img DT act s = Inr s'"
  shows "\<exists>hit. race s' = lap_update hit (race s)"
    and "car s' = fst (physics_step img DT act (car s))"
  using assms by (auto simp: sim_step_def Let_def split: prod.splits if_splits)

lemma race_inv_init: "2 \<le> length template \<Longrightarrow> race_inv (race (episode_init template))"
  by (cases template) (simp_all add: race_inv_def episode_init_def)

lemma lap_update_first_crossing:
  "nextCheckpoint rc = 0 \<Longrightarrow> \<not> 0 < currentLap rc \<Longrightarrow> currentLap (lap_update True rc) = 1"
  by (simp add: lap_update_def lap_writes_def Let_def set_crossed_def)

lemma lap_update_started:
  assumes "0 < currentLap rc \<or> nextCheckpoint rc = 0"
  shows "0 < currentLap (lap_update hit rc) \<or> nextCheckpoint (lap_update hit rc) = 0"
proof (cases hit)
  case False
  then show ?thesis using assms by (simp add: lap_update_no_hit)
next
  case True
  show ?thesis
  proof (cases "0 < currentLap rc")
    case started: True
    have "currentLap rc \<le> currentLap (lap_update hit rc)"
      by (rule lap_update_currentLap_mono)
    then show ?thesis using started by simp
  next
    case False
    then have "nextCheckpoint rc = 0" using assms by simp
    then have "currentLap (lap_update True rc) = 1"
      using False by (rule lap_update_first_crossing)
    then show ?thesis using True by simp
  qed
qed

lemma race_inv_lap_update: "race_inv rc \<Longrightarrow> race_inv (lap_update hit rc)"
  using lap_update_invariant [of rc hit] lap_update_never_zero [of rc hit]
    lap_update_started [of rc hit]
  by (simp add: race_inv_def lap_update_length)

lemma run_episode_inv:
  "race_inv (race s) \<Longrightarrow>
   \<exists>s'. run_episode img DT max_steps acts s = Inr s' \<and> race_inv (race s')"
proof (induction acts arbitrary: s)
  case Nil
  then show ?case by simp
next
  case (Cons act acts)
  show ?case
  proof (cases "raceFinished (race s) \<or> max_steps \<le> steps s")
    case True
    then show ?thesis using Cons.prems by auto
  next
    case False
    from Cons.prems have "nextCheckpoint (race s) < length (checkpoints (race s))"
      by (simp add: race_inv_def)
    from sim_step_Inr [OF this, of img DT act] obtain s1 hit where
      s1: "sim_step img DT act s = Inr s1" "race s1 = lap_update hit (race s)"
      by blast
    then have "race_inv (race s1)" using Cons.prems by (simp add: race_inv_lap_update)
    from Cons.IH [OF this] show ?thesis using False s1(1) by simp
  qed
qed

lemma run_episode_laps_mono:
  "run_episode img DT max_steps acts s = Inr s' \<Longrightarrow>
   currentLap (race s) \<le> currentLap (race s')"
proof (induction acts arbitrary: s)
  case Nil
  then show ?case by simp
next
  case (Cons act acts)
  show ?case
  proof (cases "raceFinished (race s) \<or> max_steps \<le> steps s")
    case True
    then show ?thesis using Cons.prems by auto
  next
    case False
    then obtain s1 where s1: "sim_step img DT act s = Inr s1"
      and rest: "run_episode img DT max_steps acts s1 = Inr s'"
      using Cons.prems by (auto split: sum.splits)
    from sim_step_race(1) [OF s1] obtain hit where "race s1 = lap_update hit (race s)" ..
    then have "currentLap (race s) \<le> currentLap (race s1)"
      by (simp add: lap_update_currentLap_mono)
    also have "\<dots> \<le> currentLap (race s')" using Cons.IH [OF rest] .
    finally show ?thesis .
  qed
qed

subsection \<open>Speed\<close>

lemma update_speed_bounds:
  "- (MAX_SPEED / 2) \<le> update_speed DT accelerationInput surfaceFriction v \<and>
   update_speed DT accelerationInput surfaceFriction v \<le> MAX_SPEED"
  by (simp add: update_speed_def Let_def MAX_SPEED_def)

lemma physics_step_speed:
  "- (MAX_SPEED / 2) \<le> speed (fst (physics_step img DT act c)) \<and>
   speed (fst (physics_step img DT act c)) \<le> MAX_SPEED"
proof -
  let ?v = "update_speed DT (fst (action_inputs act)) (surface_friction img (position c)) (speed c)"
  have b: "- (MAX_SPEED / 2) \<le> ?v" "?v \<le> MAX_SPEED"
    using update_speed_bounds by simp_all
  have "- (MAX_SPEED / 2) \<le> ?v * (- 0.3) \<and> ?v * (- 0.3) \<le> MAX_SPEED"
    using b by (simp add: MAX_SPEED_def)
  then show ?thesis using b by (simp add: physics_step_def Let_def)
qed

lemma run_episode_speed:
  assumes "- (MAX_SPEED / 2) \<le> speed (car s) \<and> speed (car s) \<le> MAX_SPEED"
    and "run_episode img DT max_steps acts s = Inr s'"
  shows "- (MAX_SPEED / 2) \<le> speed (car s') \<and> speed (car s') \<le> MAX_SPEED"
  using assms
proof (induction acts arbitrary: s)
  case Nil
  then show ?case by simp
next
  case (Cons act acts)
  show ?case
  proof (cases "raceFinished (race s) \<or> max_steps \<le> steps s")
    case True
    then show ?thesis using Cons.prems by auto
  next
    case False
    then obtain s1 where s1: "sim_step img DT act s = Inr s1"
      and rest: "run_episode img DT max_steps acts s1 = Inr s'"
      using Cons.prems by (auto split: sum.splits)
    have "- (MAX_SPEED / 2) \<le> speed (car s1) \<and> speed (car s1) \<le> MAX_SPEED"
      using sim_step_race(2) [OF s1] physics_step_speed by simp
    from Cons.IH [OF this rest] show ?thesis .
  qed
qed

subsection \<open>Evaluating the example episode\<close>

lemma demo_surface: "surface_friction demo_img p = 1"
  by (simp add: surface_friction_def GetFrictionMultiplier_def GetImageColor_def demo_img_def Let_def)

lemma demo_hits_wall:
  "hits_wall demo_img p = (\<not> in_image demo_img (to_int (fst p)) (to_int (snd p)))"
  by (simp add: hits_wall_def GetImageColor_def demo_img_def Let_def)

lemma update_angle_no_steering: "update_angle DT 0 spd ang = ang"
  by (simp add: update_angle_def Let_def)

lemma demo_physics:
  assumes "act = 0 \<or> act = 1 \<or> act = 6"
    and "update_speed DT (fst (action_inputs act)) 1 v = v'"
    and "in_image demo_img (to_int (px + v' * DT)) 92"
  shows "physics_step demo_img DT act
           \<lparr>position = (px, 92), velocity = vel, angle = 0, speed = v\<rparr> =
         (\<lparr>position = (px + v' * DT, 92), velocity = (v', 0), angle = 0, speed = v'\<rparr>, False, 1)"
proof -
  have st: "snd (action_inputs act) = 0" using assms(1) by (auto simp: action_inputs_def)
  have ti: "to_int 92 = 92" by (simp add: to_int_def)
  show ?thesis
    unfolding physics_step_def Let_def demo_surface st update_angle_no_steering demo_hits_wall
    using assms(2,3) by (simp add: ti)
qed

lemmas speed_eval = update_speed_def action_inputs_def ACCELERATION_def FRICTION_def
  MAX_SPEED_def Let_def

lemmas lap_eval = CheckCrossing_def lap_update_def lap_writes_def set_crossed_def
  allCrossed_def reset_prefix_def totalLaps_def mk_checkpoint_def Let_def

lemma demo_init: "episode_init demo_track = demo_sim 430 0 (- 1) 0 False 0"
  by (simp add: episode_init_def demo_track_def demo_sim_def mk_checkpoint_def)

lemma demo_step1:
  "sim_step demo_img 1 1 (demo_sim 430 0 (- 1) 0 False 0) = Inr (demo_sim 420 (- 10) 1 (Suc 0) False (Suc 0))"
proof -
  have u: "update_speed 1 (fst (action_inputs 1)) 1 0 = - 10" by (simp add: speed_eval)
  have p: "physics_step demo_img 1 1 (car (demo_sim 430 0 (- 1) 0 False 0)) =
           (car (demo_sim 420 (- 10) 1 (Suc 0) False (Suc 0)), False, 1)"
    using demo_physics [of 1 1 0 "- 10" 430 "(0, 0)", OF _ u]
    by (simp add: demo_sim_def in_image_def to_int_def demo_img_def)
  show ?thesis unfolding sim_step_def p by (simp add: demo_sim_def lap_eval)
qed

lemma demo_step2:
  "sim_step demo_img 1 1 (demo_sim 420 (- 10) 1 (Suc 0) False (Suc 0)) = Inr (demo_sim 400 (- 20) 1 0 True 2)"
proof -
  have u: "update_speed 1 (fst (action_inputs 1)) 1 (- 10) = - 20" by (simp add: speed_eval)
  have p: "physics_step demo_img 1 1 (car (demo_sim 420 (- 10) 1 (Suc 0) False (Suc 0))) =
           (car (demo_sim 400 (- 20) 1 0 True 2), False, 1)"
    using demo_physics [of 1 1 "- 10" "- 20" 420 "(- 10, 0)", OF _ u]
    by (simp add: demo_sim_def in_image_def to_int_def demo_img_def)
  show ?thesis unfolding sim_step_def p by (simp add: demo_sim_def lap_eval)
qed

lemma demo_step3:
  "sim_step demo_img 1 0 (demo_sim 400 (- 20) 1 0 True 2) = Inr (demo_sim 480 80 2 (Suc 0) False 3)"
proof -
  have u: "update_speed 1 (fst (action_inputs 0)) 1 (- 20) = 80" by (simp add: speed_eval)
  have p: "physics_step demo_img 1 0 (car (demo_sim 400 (- 20) 1 0 True 2)) =
           (car (demo_sim 480 80 2 (Suc 0) False 3), False, 1)"
    using demo_physics [of 0 1 "- 20" 80 400 "(- 20, 0)", OF _ u]
    by (simp add: demo_sim_def in_image_def to_int_def demo_img_def)
  show ?thesis unfolding sim_step_def p by (simp add: demo_sim_def lap_eval)
qed

lemma demo_sim_sel [simp]:
  "raceFinished (race (demo_sim px v lap nxt c1 n)) = False"
  "steps (demo_sim px v lap nxt c1 n) = n"
  by (simp_all add: demo_sim_def)

lemma demo_run2:
  "run_episode demo_img 1 7500 [1, 1] (episode_init demo_track) = Inr (demo_sim 400 (- 20) 1 0 True 2)"
  by (simp add: demo_init demo_step1 demo_step2)

lemma demo_run3:
  "run_episode demo_img 1 7500 [1, 1, 0] (episode_init demo_track) = Inr (demo_sim 480 80 2 (Suc 0) False 3)"
  by (simp add: demo_init demo_step1 demo_step2 demo_step3)

lemma demo_idle:
  "sim_step demo_img (1 / 60) 6 ((episode_init checkpointsTemplate)\<lparr>steps := n\<rparr>) =
     Inr ((episode_init checkpointsTemplate)\<lparr>steps := Suc n\<rparr>)"
proof -
  have u: "update_speed (1 / 60) (fst (action_inputs 6)) 1 0 = 0" by (simp add: speed_eval)
  have p: "physics_step demo_img (1 / 60) 6 (car ((episode_init checkpointsTemplate)\<lparr>steps := n\<rparr>)) =
           (car (episode_init checkpointsTemplate), False, 1)"
    using demo_physics [of 6 "1 / 60" 0 0 430 "(0, 0)", OF _ u]
    by (simp add: episode_init_def in_image_def to_int_def demo_img_def)
  show ?thesis unfolding sim_step_def p
    by (simp add: episode_init_def checkpointsTemplate_def lap_eval)
qed

subsection \<open>Checkpoints, laps and speed over an episode\<close>

text \<open>
  Claim C3. In every episode (any track of at least two checkpoints, any image, any
  actions) every state at a step boundary has checkpoint 0 unflagged. Inside the
  lap block of the next step, a write leaves checkpoint 0 flagged only when that
  checkpoint was the awaited one and was crossed with every other checkpoint flagged;
  the block then ends with the lap count one higher and every flag cleared.
\<close>

theorem checkpoint0_flagged_only_in_lap_completion:
  assumes "2 \<le> length template"
  shows "\<exists>s. run_episode img DT max_steps acts (episode_init template) = Inr s \<and>
           \<not> crossed (checkpoints (race s) ! 0) \<and>
           (\<forall>hit w. w \<in> set (lap_writes hit (race s)) \<and> crossed (checkpoints w ! 0) \<longrightarrow>
              hit \<and> nextCheckpoint (race s) = 0 \<and> allCrossed (checkpoints (race s)) \<and>
              currentLap (lap_update hit (race s)) = currentLap (race s) + 1 \<and>
              list_all (\<lambda>c. \<not> crossed c) (checkpoints (lap_update hit (race s))))"
proof -
  from run_episode_inv [OF race_inv_init [OF assms], of img DT max_steps acts]
  obtain s where run: "run_episode img DT max_steps acts (episode_init template) = Inr s"
    and inv: "race_inv (race s)" by blast
  have ne: "checkpoints (race s) \<noteq> []" and f0: "\<not> crossed (checkpoints (race s) ! 0)"
    using inv by (auto simp: race_inv_def)
  have "hit \<and> nextCheckpoint (race s) = 0 \<and> allCrossed (checkpoints (race s)) \<and>
        currentLap (lap_update hit (race s)) = currentLap (race s) + 1 \<and>
        list_all (\<lambda>c. \<not> crossed c) (checkpoints (lap_update hit (race s)))"
    if w: "w \<in> set (lap_writes hit (race s))" "crossed (checkpoints w ! 0)" for hit w
  proof -
    from lap_writes_flag0 [OF ne f0 w]
    have c: "hit" "nextCheckpoint (race s) = 0" "0 < currentLap (race s)"
      "allCrossed (checkpoints (race s))" by simp_all
    from lap_update_complete [OF c(2,3,4)] c show ?thesis
      by (simp add: list_all_iff)
  qed
  then show ?thesis using run f0 by blast
qed

theorem checkpoint0_flagged_only_in_lap_completion_witness:
  "2 \<le> length demo_track \<and>
   run_episode demo_img 1 7500 [1, 1] (episode_init demo_track) =
     Inr (demo_sim 400 (- 20) 1 0 True 2) \<and>
   \<not> crossed (checkpoints (race (demo_sim 400 (- 20) 1 0 True 2)) ! 0) \<and>
   crossed (checkpoints (hd (lap_writes True (race (demo_sim 400 (- 20) 1 0 True 2)))) ! 0) \<and>
   allCrossed (checkpoints (race (demo_sim 400 (- 20) 1 0 True 2))) \<and>
   currentLap (lap_update True (race (demo_sim 400 (- 20) 1 0 True 2))) = 2 \<and>
   list_all (\<lambda>c. \<not> crossed c)
     (checkpoints (lap_update True (race (demo_sim 400 (- 20) 1 0 True 2))))"
proof -
  let ?s = "demo_sim 400 (- 20) 1 0 True 2"
  let ?w = "hd (lap_writes True (race ?s))"
  have len: "2 \<le> length demo_track" by (simp add: demo_track_def)
  from checkpoint0_flagged_only_in_lap_completion [OF len, of demo_img 1 7500 "[1, 1]"]
  have f0: "\<not> crossed (checkpoints (race ?s) ! 0)"
    and wr: "\<And>hit w. w \<in> set (lap_writes hit (race ?s)) \<Longrightarrow> crossed (checkpoints w ! 0) \<Longrightarrow>
              allCrossed (checkpoints (race ?s)) \<and>
              currentLap (lap_update hit (race ?s)) = currentLap (race ?s) + 1 \<and>
              list_all (\<lambda>c. \<not> crossed c) (checkpoints (lap_update hit (race ?s)))"
    unfolding demo_run2 by auto
  have w_in: "?w \<in> set (lap_writes True (race ?s))"
    and w_flag: "crossed (checkpoints ?w ! 0)"
    by (simp_all add: demo_sim_def lap_eval)
  have "currentLap (race ?s) = 1" by (simp add: demo_sim_def)
  with wr [OF w_in w_flag] len f0 w_flag demo_run2 show ?thesis by simp
qed

text \<open>
  Claim C4, as the code has it. \<open>currentLap\<close>, the value recorded as the laps of an
  episode, starts every episode at \<open>-1\<close> (the marker of a race not yet started),
  never at 0; it is never 0 at a step boundary; and it never decreases from one point
  of the episode to a later one. While it is \<open>-1\<close> the awaited checkpoint is the
  start line, and a step leaves it at 1 when the vehicle crossed the start line in
  that step and at \<open>-1\<close> otherwise; once it has left \<open>-1\<close> it is positive.
\<close>

theorem laps_start_at_minus_one_and_never_decrease:
  assumes "2 \<le> length template"
    and "run_episode img DT max_steps acts (episode_init template) = Inr s1"
    and "run_episode img DT max_steps acts2 s1 = Inr s2"
  shows "recorded_laps (episode_init template) = - 1 \<and>
         - 1 \<le> recorded_laps s1 \<and> recorded_laps s1 \<noteq> 0 \<and>
         recorded_laps s1 \<le> recorded_laps s2 \<and>
         (if recorded_laps s1 = - 1
          then nextCheckpoint (race s1) = 0 \<and>
               currentLap (lap_update True (race s1)) = 1 \<and>
               currentLap (lap_update False (race s1)) = - 1
          else 0 < recorded_laps s1) \<and>
         (\<forall>act s'. recorded_laps s1 = - 1 \<and> sim_step img DT act s1 = Inr s' \<longrightarrow>
            recorded_laps s' =
              (if CheckCrossing (checkpoints (race s1) ! 0) (position (car s1)) (position (car s'))
               then 1 else - 1))"
proof -
  have i: "recorded_laps (episode_init template) = - 1"
    by (simp add: recorded_laps_def episode_init_def)
  from run_episode_inv [OF race_inv_init [OF assms(1)], of img DT max_steps acts] assms(2)
  have inv: "race_inv (race s1)" by auto
  then have nz: "recorded_laps s1 \<noteq> 0" by (simp add: race_inv_def recorded_laps_def)
  have lo: "recorded_laps (episode_init template) \<le> recorded_laps s1"
    using run_episode_laps_mono [OF assms(2)] by (simp add: recorded_laps_def)
  have up: "recorded_laps s1 \<le> recorded_laps s2"
    using run_episode_laps_mono [OF assms(3)] by (simp add: recorded_laps_def)
  have first: "nextCheckpoint (race s1) = 0 \<and>
               currentLap (lap_update True (race s1)) = 1 \<and>
               currentLap (lap_update False (race s1)) = - 1"
    if m: "recorded_laps s1 = - 1"
  proof -
    have n0: "nextCheckpoint (race s1) = 0" and neg: "\<not> 0 < currentLap (race s1)"
      using inv m by (auto simp: race_inv_def recorded_laps_def)
    show ?thesis
      using n0 lap_update_first_crossing [OF n0 neg] m
      by (simp add: lap_update_no_hit recorded_laps_def)
  qed
  have later: "0 < recorded_laps s1" if "recorded_laps s1 \<noteq> - 1"
    using that nz lo i by simp
  have step: "recorded_laps s' =
      (if CheckCrossing (checkpoints (race s1) ! 0) (position (car s1)) (position (car s'))
       then 1 else - 1)"
    if m: "recorded_laps s1 = - 1" and st: "sim_step img DT act s1 = Inr s'" for act s'
  proof -
    note f = first [OF m]
    have "race s' = lap_update
            (CheckCrossing (checkpoints (race s1) ! 0) (position (car s1)) (position (car s')))
            (race s1)"
      using st f by (auto simp: sim_step_def Let_def split: prod.splits if_splits)
    then show ?thesis
      using f by (cases "CheckCrossing (checkpoints (race s1) ! 0) (position (car s1))
                            (position (car s'))") (simp_all add: recorded_laps_def)
  qed
  show ?thesis using i nz lo up first later step by simp
qed

theorem laps_start_at_minus_one_and_never_decrease_witness:
  "2 \<le> length demo_track \<and>
   run_episode demo_img 1 7500 [] (episode_init demo_track) = Inr (episode_init demo_track) \<and>
   run_episode demo_img 1 7500 [1, 1, 0] (episode_init demo_track) =
     Inr (demo_sim 480 80 2 (Suc 0) False 3) \<and>
   recorded_laps (episode_init demo_track) = - 1 \<and>
   nextCheckpoint (race (episode_init demo_track)) = 0 \<and>
   currentLap (lap_update True (race (episode_init demo_track))) = 1 \<and>
   sim_step demo_img 1 1 (episode_init demo_track) =
     Inr (demo_sim 420 (- 10) 1 (Suc 0) False (Suc 0)) \<and>
   recorded_laps (demo_sim 420 (- 10) 1 (Suc 0) False (Suc 0)) = 1 \<and>
   recorded_laps (demo_sim 480 80 2 (Suc 0) False 3) = 2 \<and>
   recorded_laps (episode_init demo_track) \<le> recorded_laps (demo_sim 480 80 2 (Suc 0) False 3)"
proof -
  have len: "2 \<le> length demo_track" by (simp add: demo_track_def)
  have r1: "run_episode demo_img 1 7500 [] (episode_init demo_track) = Inr (episode_init demo_track)"
    by simp
  have st: "sim_step demo_img 1 1 (episode_init demo_track) =
     Inr (demo_sim 420 (- 10) 1 (Suc 0) False (Suc 0))"
    using demo_step1 by (simp add: demo_init)
  have v: "recorded_laps (demo_sim 420 (- 10) 1 (Suc 0) False (Suc 0)) = 1"
    "recorded_laps (demo_sim 480 80 2 (Suc 0) False 3) = 2"
    by (simp_all add: recorded_laps_def demo_sim_def)
  note t = laps_start_at_minus_one_and_never_decrease [OF len r1 demo_run3]
  have m: "recorded_laps (episode_init demo_track) = - 1" using t by simp
  have "nextCheckpoint (race (episode_init demo_track)) = 0"
    "currentLap (lap_update True (race (episode_init demo_track))) = 1"
    "recorded_laps (episode_init demo_track) \<le> recorded_laps (demo_sim 480 80 2 (Suc 0) False 3)"
    using t m by simp_all
  then show ?thesis using len r1 demo_run3 st v m by simp
qed

text \<open>
  Claim C4 as the specification states it fails: an episode in which the vehicle
  never moves (action 6 at every step) records \<open>-1\<close> laps, and the value an episode
  starts with is \<open>-1\<close>, not 0.
\<close>

theorem laps_not_reset_to_zero:
  "map_sum id recorded_laps
     (run_episode demo_img (1 / 60) 7500 [6, 6] (episode_init checkpointsTemplate)) = Inr (- 1) \<and>
   recorded_laps (episode_init checkpointsTemplate) \<noteq> 0"
proof -
  have e: "episode_init checkpointsTemplate = (episode_init checkpointsTemplate)\<lparr>steps := 0\<rparr>"
    by (simp add: episode_init_def)
  have s: "steps (episode_init checkpointsTemplate) = 0"
    "\<not> raceFinished (race (episode_init checkpointsTemplate))"
    by (simp_all add: episode_init_def)
  have "run_episode demo_img (1 / 60) 7500 [6, 6] ((episode_init checkpointsTemplate)\<lparr>steps := 0\<rparr>) =
        Inr ((episode_init checkpointsTemplate)\<lparr>steps := Suc (Suc 0)\<rparr>)"
    using s by (simp add: demo_idle)
  then show ?thesis using e by (simp add: recorded_laps_def episode_init_def)
qed

text \<open>
  Claim C10. After the physics of any simulation step, from any state and on any
  surface, the speed lies in \<open>[-MAX_SPEED/2, MAX_SPEED] = [-150, 300]\<close>, whether or not
  the step ended in a wall bounce; so it does at every point of every episode, of
  the training loop and of the greedy evaluation alike.
\<close>

theorem speed_stays_in_range:
  "MAX_SPEED = 300 \<and>
   - (MAX_SPEED / 2) \<le> speed (fst (physics_step img DT act c)) \<and>
   speed (fst (physics_step img DT act c)) \<le> MAX_SPEED \<and>
   (case run_episode img DT max_steps acts (episode_init template) of
      Inl err \<Rightarrow> True
    | Inr s \<Rightarrow> - (MAX_SPEED / 2) \<le> speed (car s) \<and> speed (car s) \<le> MAX_SPEED)"
proof -
  have init: "- (MAX_SPEED / 2) \<le> speed (car (episode_init template)) \<and>
              speed (car (episode_init template)) \<le> MAX_SPEED"
    by (simp add: episode_init_def MAX_SPEED_def)
  have "- (MAX_SPEED / 2) \<le> speed (car s) \<and> speed (car s) \<le> MAX_SPEED"
    if "run_episode img DT max_steps acts (episode_init template) = Inr s" for s
    using run_episode_speed [OF init that] .
  then show ?thesis
    using physics_step_speed [of img DT act c]
    by (simp add: MAX_SPEED_def split: sum.splits)
qed

theorem speed_stays_in_range_witness:
  "speed (fst (physics_step demo_img 1 0 (car (demo_sim 400 (- 20) 1 0 True 2)))) = 80 \<and>
   - 150 \<le> speed (fst (physics_step demo_img 1 0 (car (demo_sim 400 (- 20) 1 0 True 2)))) \<and>
   speed (fst (physics_step demo_img 1 0 (car (demo_sim 400 (- 20) 1 0 True 2)))) \<le> 300 \<and>
   run_episode demo_img 1 7500 [1, 1, 0] (episode_init demo_track) =
     Inr (demo_sim 480 80 2 (Suc 0) False 3) \<and>
   - 150 \<le> speed (car (demo_sim 480 80 2 (Suc 0) False 3)) \<and>
   speed (car (demo_sim 480 80 2 (Suc 0) False 3)) \<le> 300"
proof -
  have "fst (physics_step demo_img 1 0 (car (demo_sim 400 (- 20) 1 0 True 2))) =
          car (demo_sim 480 80 2 (Suc 0) False 3)"
    using sim_step_race(2) [OF demo_step3] by simp
  then have p: "speed (fst (physics_step demo_img 1 0 (car (demo_sim 400 (- 20) 1 0 True 2)))) = 80"
    by (simp add: demo_sim_def)
  from speed_stays_in_range [of demo_img 1 0 "car (demo_sim 400 (- 20) 1 0 True 2)" 7500
      "[1, 1, 0]" demo_track]
  show ?thesis unfolding demo_run3 using p by (simp add: demo_run3)
qed

section \<open>Properties of the training orchestrator\<close>

subsection \<open>Learning-rate schedule\<close>

lemma end_of_episode_flags:
  "(lr_dropped_once t \<longrightarrow> lr_dropped_once (end_of_episode fin t)) \<and>
   (lr_dropped_twice t \<longrightarrow> lr_dropped_twice (end_of_episode fin t))"
  by (simp add: end_of_episode_def Let_def)

lemma end_of_episode_both_dropped:
  "lr_dropped_once t \<Longrightarrow> lr_dropped_twice t \<Longrightarrow> dqn (end_of_episode fin t) = dqn t"
  by (simp add: end_of_episode_def Let_def)

lemma end_of_episode_lr_values:
  "get_learning_rate (dqn (end_of_episode fin t)) \<in>
     {get_learning_rate (dqn t), 3 / 10000, 1 / 10000}"
  by (simp add: end_of_episode_def Let_def get_learning_rate_def set_learning_rate_def)

text \<open>
  Claim C6 fails on the code. The learner enters the first episode with the rate
  \<open>1e-4\<close> that \<open>main\<close> sets after loading the checkpoint; the first episode that
  finishes the race sets \<open>3e-4\<close>, which is higher.
\<close>

theorem first_finish_raises_learning_rate:
  "get_learning_rate (dqn (trainer_init d)) = 1 / 10000 \<and>
   get_learning_rate (dqn (end_of_episode True (trainer_init d))) = 3 / 10000 \<and>
   get_learning_rate (dqn (trainer_init d)) <
     get_learning_rate (dqn (end_of_episode True (trainer_init d))) \<and>
   lr_trace (trainer_init d) [False, True, False] = [1 / 10000, 3 / 10000, 3 / 10000]"
  by (simp add: trainer_init_def end_of_episode_def get_learning_rate_def
      set_learning_rate_def Let_def)

subsection \<open>Selection of the best models\<close>

lemma cpp_round_of_int: "cpp_round (real_of_int k / 20 * real_of_int EVAL_EPISODES) = k"
  by (simp add: cpp_round_def EVAL_EPISODES_def) linarith

lemma finish_rate_block_dominates:
  assumes "finish_rate ev = real_of_int (finishes ev) / 20"
    and "best_finish_rate t < 0 \<or> best_finish_rate t = real_of_int k / 20"
  shows "finish_rate ev \<le> best_finish_rate (fst (milestone_select ev t))"
proof (cases "best_finish_rate t < 0")
  case True
  then show ?thesis by (simp add: milestone_select_def accept_finish_rate_def Let_def)
next
  case False
  then have b: "best_finish_rate t = real_of_int k / 20" using assms(2) by simp
  have r: "cpp_round (best_finish_rate t * real_of_int EVAL_EPISODES) = k"
    unfolding b by (rule cpp_round_of_int)
  show ?thesis
  proof (cases "best_finish_rate t < finish_rate ev")
    case True
    then have "k < finishes ev" using b assms(1) by simp
    then have "accept_finish_rate ev t"
      using True r by (simp add: accept_finish_rate_def Let_def)
    then show ?thesis by (simp add: milestone_select_def Let_def)
  next
    case False
    then show ?thesis by (simp add: milestone_select_def Let_def)
  qed
qed

text \<open>
  With the finish rates of 20-episode evaluations, the third clause of the best-score
  rule never decides: the best finish rate it compares with has just been raised to
  the new finish rate.
\<close>

lemma score_rule_third_clause_dead:
  assumes "finish_rate ev = real_of_int (finishes ev) / 20"
    and "best_finish_rate t < 0 \<or> best_finish_rate t = real_of_int k / 20"
  shows "snd (snd (snd (milestone_select ev t))) =
           (best_score t \<le> - (10 ^ 17) \<or> best_score t + SCORE_MIN_IMPROVEMENT < avg_score ev)"
proof -
  have "finish_rate ev \<le> best_finish_rate (fst (milestone_select ev t))"
    using assms by (rule finish_rate_block_dominates)
  then have "\<not> (if accept_finish_rate ev t then finish_rate ev else best_finish_rate t) < finish_rate ev"
    by (simp add: milestone_select_def Let_def split: if_splits)
  then show ?thesis
    by (auto simp: milestone_select_def accept_score_def Let_def)
qed

text \<open>
  With a real record stored, the decision of the program and the rule that compares
  with the finish rate \<open>r\<close> the record was stored with differ exactly when the score
  rose by at most the minimum improvement and the finish rate rose above \<open>r\<close>.
\<close>

lemma score_rule_divergence:
  assumes "finish_rate ev = real_of_int (finishes ev) / 20"
    and "best_finish_rate t < 0 \<or> best_finish_rate t = real_of_int k / 20"
    and "- (10 ^ 17) < best_score t"
  shows "(snd (snd (snd (milestone_select ev t))) \<noteq> spec_accept_score True (best_score t) r ev) =
         (best_score t < avg_score ev \<and> avg_score ev \<le> best_score t + SCORE_MIN_IMPROVEMENT \<and>
          r < finish_rate ev)"
  unfolding score_rule_third_clause_dead [OF assms(1) assms(2)]
  using assms(3) by (auto simp: spec_accept_score_def SCORE_MIN_IMPROVEMENT_def)

section \<open>Properties of the learner\<close>

subsection \<open>Failure propagation\<close>

lemma bind_err_Inr [simp]: "bind_err (Inr v) f = f v"
  by (simp add: bind_err_def)

lemma bind_err_Inl [simp]: "bind_err (Inl e) f = Inl e"
  by (simp add: bind_err_def)

lemma map_err_Inr:
  "(\<And>x. x \<in> set xs \<Longrightarrow> f x = Inr (g x)) \<Longrightarrow> map_err f xs = Inr (map g xs)"
  by (induction xs) simp_all

subsection \<open>Tensors built from the batch\<close>

lemma take_drop_concat:
  "(\<And>s. s \<in> set xss \<Longrightarrow> length s = n) \<Longrightarrow> i < length xss \<Longrightarrow>
   take n (drop (i * n) (concat xss)) = xss ! i"
proof (induction xss arbitrary: i)
  case Nil
  then show ?case by simp
next
  case (Cons xs xss)
  have len: "length xs = n" using Cons.prems(1) by simp
  show ?case
  proof (cases i)
    case 0
    then show ?thesis using len by simp
  next
    case (Suc k)
    then have "k < length xss" using Cons.prems(2) by simp
    then have "take n (drop (k * n) (concat xss)) = xss ! k"
      using Cons.IH Cons.prems(1) by simp
    then show ?thesis using Suc len by simp
  qed
qed

lemma length_concat_uniform:
  "(\<And>s. s \<in> set xss \<Longrightarrow> length s = n) \<Longrightarrow> length (concat xss) = length xss * n"
  by (induction xss) simp_all

lemma from_blob_rows:
  assumes "\<And>s. s \<in> set xss \<Longrightarrow> length s = n" and "length xss = B"
  shows "from_blob (concat xss) B n = Inr xss"
proof -
  have "map (\<lambda>i. take n (drop (i * n) (concat xss))) [0..<B] = xss"
    using assms by (intro nth_equalityI) (simp_all add: take_drop_concat)
  then show ?thesis
    using assms by (simp add: from_blob_def length_concat_uniform)
qed

lemma from_blob_col_all: "length xs = B \<Longrightarrow> from_blob_col xs B = Inr xs"
  by (simp add: from_blob_col_def)

subsection \<open>Forward pass\<close>

lemma Linear_forward_shape:
  assumes "shape (weight l) = [n_out, n_in]" and "shape (bias l) = [n_out]" and "length x = n_in"
  shows "\<exists>y. Linear_forward l x = Inr y \<and> length y = n_out"
  using assms by (simp add: Linear_forward_def)

lemma param_shapes_dims:
  assumes "param_shapes net = dims n_state n_action"
  shows "shape (weight (fc1 net)) = [64, n_state]" "shape (bias (fc1 net)) = [64]"
    "shape (weight (fc2 net)) = [64, 64]" "shape (bias (fc2 net)) = [64]"
    "shape (weight (fc3 net)) = [n_action, 64]" "shape (bias (fc3 net)) = [n_action]"
  using assms by (simp_all add: param_shapes_def dims_def named_parameters_def)

lemma forward_dims:
  assumes "param_shapes net = dims n_state n_action" and "length x = n_state"
  shows "\<exists>q. forward net x = Inr q \<and> length q = n_action"
proof -
  note sh = param_shapes_dims [OF assms(1)]
  from Linear_forward_shape [OF sh(1) sh(2) assms(2)] obtain h1 where
    h1: "Linear_forward (fc1 net) x = Inr h1" "length h1 = 64" by blast
  have "length (relu h1) = 64" using h1(2) by (simp add: relu_def)
  from Linear_forward_shape [OF sh(3) sh(4) this] obtain h2 where
    h2: "Linear_forward (fc2 net) (relu h1) = Inr h2" "length h2 = 64" by blast
  have "length (relu h2) = 64" using h2(2) by (simp add: relu_def)
  from Linear_forward_shape [OF sh(5) sh(6) this] obtain q where
    "Linear_forward (fc3 net) (relu h2) = Inr q" "length q = n_action" by blast
  then show ?thesis using h1(1) h2(1) by (simp add: forward_def)
qed

subsection \<open>Arg-max\<close>

lemma argmax_from_spec:
  assumes "best_i < i" and "(pre @ vs) ! best_i = best" and "length pre = i"
    and "\<And>j. j < i \<Longrightarrow> (pre @ vs) ! j \<le> best"
  shows "argmax_from vs i best_i best < i + length vs \<and>
         (\<forall>j < i + length vs. (pre @ vs) ! j \<le> (pre @ vs) ! argmax_from vs i best_i best)"
  using assms
proof (induction vs arbitrary: i best_i best pre)
  case Nil
  then show ?case by auto
next
  case (Cons v vs)
  have split: "pre @ v # vs = (pre @ [v]) @ vs" by simp
  have at_i: "(pre @ v # vs) ! i = v" using Cons.prems(3) by (simp add: nth_append)
  show ?case
  proof (cases "best < v")
    case True
    have le: "(pre @ v # vs) ! j \<le> v" if "j < Suc i" for j
    proof (cases "j = i")
      case True
      then show ?thesis using at_i by simp
    next
      case False
      then have "j < i" using that by simp
      then show ?thesis using Cons.prems(4) [of j] \<open>best < v\<close> by simp
    qed
    have "argmax_from vs (Suc i) i v < Suc i + length vs \<and>
          (\<forall>j < Suc i + length vs. ((pre @ [v]) @ vs) ! j \<le> ((pre @ [v]) @ vs) ! argmax_from vs (Suc i) i v)"
      using Cons.prems(3) at_i le
      by (intro Cons.IH) (simp_all del: append_assoc add: split [symmetric])
    then show ?thesis using True by simp
  next
    case False
    have le: "(pre @ v # vs) ! j \<le> best" if "j < Suc i" for j
    proof (cases "j = i")
      case True
      then show ?thesis using at_i False by simp
    next
      case False
      then have "j < i" using that by simp
      then show ?thesis using Cons.prems(4) [of j] by simp
    qed
    have "argmax_from vs (Suc i) best_i best < Suc i + length vs \<and>
          (\<forall>j < Suc i + length vs. ((pre @ [v]) @ vs) ! j \<le> ((pre @ [v]) @ vs) ! argmax_from vs (Suc i) best_i best)"
      using Cons.prems(1,2,3) le
      by (intro Cons.IH) (simp_all del: append_assoc add: split [symmetric])
    then show ?thesis using False by simp
  qed
qed

lemma argmax_spec:
  assumes "row \<noteq> []"
  shows "\<exists>a. argmax row = Inr a \<and> a < length row \<and> (\<forall>j < length row. row ! j \<le> row ! a)"
proof -
  obtain v vs where row: "row = v # vs" using assms by (cases row) auto
  have "argmax_from vs 1 0 v < 1 + length vs \<and>
        (\<forall>j < 1 + length vs. ([v] @ vs) ! j \<le> ([v] @ vs) ! argmax_from vs 1 0 v)"
    by (rule argmax_from_spec) simp_all
  then show ?thesis using row by (simp add: argmax_def)
qed

subsection \<open>Copying and blending parameters\<close>

lemma tensor_copy_same_shape:
  "shape s = shape t \<Longrightarrow> t\<lparr>elems := elems s\<rparr> = (s :: Tensor)"
  by simp

lemma param_shapes_eq:
  assumes "param_shapes a = param_shapes b"
  shows "shape (weight (fc1 a)) = shape (weight (fc1 b))" "shape (bias (fc1 a)) = shape (bias (fc1 b))"
    "shape (weight (fc2 a)) = shape (weight (fc2 b))" "shape (bias (fc2 a)) = shape (bias (fc2 b))"
    "shape (weight (fc3 a)) = shape (weight (fc3 b))" "shape (bias (fc3 a)) = shape (bias (fc3 b))"
  using assms by (simp_all add: param_shapes_def named_parameters_def)

lemma copy_weights_same_shapes:
  assumes "param_shapes src = param_shapes tgt"
  shows "copy_weights src tgt = Inr src"
proof -
  note sh = param_shapes_eq [OF assms]
  show ?thesis
    unfolding copy_weights_def
    using sh
    by (simp add: named_parameters_def param_copy_def set_param_def)
qed

lemma soft_update_loop_same_shapes:
  assumes "param_shapes pol = param_shapes tgt"
  shows "soft_update_loop tau (named_parameters pol) tgt =
     Inr \<lparr>fc1 = \<lparr>weight = mix_tensor tau (weight (fc1 pol)) (weight (fc1 tgt)),
                 bias = mix_tensor tau (bias (fc1 pol)) (bias (fc1 tgt))\<rparr>,
          fc2 = \<lparr>weight = mix_tensor tau (weight (fc2 pol)) (weight (fc2 tgt)),
                 bias = mix_tensor tau (bias (fc2 pol)) (bias (fc2 tgt))\<rparr>,
          fc3 = \<lparr>weight = mix_tensor tau (weight (fc3 pol)) (weight (fc3 tgt)),
                 bias = mix_tensor tau (bias (fc3 pol)) (bias (fc3 tgt))\<rparr>\<rparr>"
proof -
  note sh = param_shapes_eq [OF assms]
  have mix_shape: "shape (mix_tensor tau p t) = shape t" for p t
    by (simp add: mix_tensor_def)
  have same: "t\<lparr>elems := elems (mix_tensor tau p t)\<rparr> = mix_tensor tau p t" for p t
    by (simp add: mix_tensor_def)
  show ?thesis
    using sh
    by (simp add: named_parameters_def param_copy_def set_param_def blend_def mix_shape same)
qed

lemma params_nth:
  "params net = [weight (fc1 net), bias (fc1 net), weight (fc2 net), bias (fc2 net),
                 weight (fc3 net), bias (fc3 net)]"
  by (simp add: params_def named_parameters_def)

lemma layout_shapes: "layout a = layout b \<Longrightarrow> param_shapes a = param_shapes b"
  by (simp add: layout_def params_def param_shapes_def named_parameters_def)

lemma layout_optimizer_step [simp]: "layout (optimizer_step adam net) = layout net"
  by (simp add: layout_def params_nth optimizer_step_def step_linear_def step_tensor_def)

lemma mix_tensor_nth:
  assumes "length (elems p) = length (elems t)" and "i < length (elems t)"
  shows "elems (mix_tensor tau p t) ! i = tau * elems p ! i + (1 - tau) * elems t ! i"
  using assms by (simp add: mix_tensor_def)

lemma mix_tensor_layout:
  "length (elems p) = length (elems t) \<Longrightarrow>
   shape (mix_tensor tau p t) = shape t \<and> length (elems (mix_tensor tau p t)) = length (elems t)"
  by (simp add: mix_tensor_def)

lemma layout_lengths:
  assumes "layout a = layout b" and "k < 6"
  shows "length (elems (params a ! k)) = length (elems (params b ! k))"
proof -
  have "map (\<lambda>t. length (elems t)) (params a) = map (\<lambda>t. length (elems t)) (params b)"
    using assms(1) unfolding layout_def
    by (metis (mono_tags, lifting) list.map_comp map_eq_conv o_apply snd_conv)
  moreover have "length (params a) = 6" "length (params b) = 6" by (simp_all add: params_nth)
  ultimately show ?thesis using assms(2)
    by (metis nth_map)
qed

text \<open>The soft update of the target network, element by element.\<close>

lemma soft_update_target_elementwise:
  assumes "layout (policy_net d) = layout (target_net d)"
  shows "\<exists>d'. soft_update_target tau d = Inr d' \<and>
           policy_net d' = policy_net d \<and>
           layout (target_net d') = layout (target_net d) \<and>
           (\<forall>k < 6. \<forall>i < length (elems (params (target_net d) ! k)).
              elems (params (target_net d') ! k) ! i =
                tau * elems (params (policy_net d) ! k) ! i +
                (1 - tau) * elems (params (target_net d) ! k) ! i)"
proof -
  let ?p = "policy_net d" and ?t = "target_net d"
  let ?m = "\<lparr>fc1 = \<lparr>weight = mix_tensor tau (weight (fc1 ?p)) (weight (fc1 ?t)),
                 bias = mix_tensor tau (bias (fc1 ?p)) (bias (fc1 ?t))\<rparr>,
          fc2 = \<lparr>weight = mix_tensor tau (weight (fc2 ?p)) (weight (fc2 ?t)),
                 bias = mix_tensor tau (bias (fc2 ?p)) (bias (fc2 ?t))\<rparr>,
          fc3 = \<lparr>weight = mix_tensor tau (weight (fc3 ?p)) (weight (fc3 ?t)),
                 bias = mix_tensor tau (bias (fc3 ?p)) (bias (fc3 ?t))\<rparr>\<rparr>"
  have run: "soft_update_target tau d = Inr (d\<lparr>target_net := ?m\<rparr>)"
    using soft_update_loop_same_shapes [OF layout_shapes [OF assms], of tau]
    by (simp add: soft_update_target_def)
  have pm: "params ?m = map (\<lambda>(p, t). mix_tensor tau p t) (zip (params ?p) (params ?t))"
    by (simp add: params_nth)
  have len: "length (elems (params ?p ! k)) = length (elems (params ?t ! k))" if "k < 6" for k
    using layout_lengths [OF assms that] .
  have six: "length (params ?p) = 6" "length (params ?t) = 6" by (simp_all add: params_nth)
  have nth_m: "params ?m ! k = mix_tensor tau (params ?p ! k) (params ?t ! k)" if "k < 6" for k
    using that six by (simp add: pm)
  have lay: "layout ?m = layout ?t"
    unfolding layout_def
  proof (rule nth_equalityI)
    show "length (map (\<lambda>t. (shape t, length (elems t))) (params ?m)) =
          length (map (\<lambda>t. (shape t, length (elems t))) (params ?t))"
      by (simp add: params_nth)
  next
    fix k assume "k < length (map (\<lambda>t. (shape t, length (elems t))) (params ?m))"
    then have k: "k < 6" by (simp add: params_nth)
    have m6: "length (params ?m) = 6" by (simp add: params_nth)
    show "map (\<lambda>t. (shape t, length (elems t))) (params ?m) ! k =
          map (\<lambda>t. (shape t, length (elems t))) (params ?t) ! k"
      using k six m6 nth_m [OF k] mix_tensor_layout [OF len [OF k], of tau] by simp
  qed
  have el: "elems (params ?m ! k) ! i =
      tau * elems (params ?p ! k) ! i + (1 - tau) * elems (params ?t ! k) ! i"
    if "k < 6" "i < length (elems (params ?t ! k))" for k i
    using nth_m [OF that(1)] mix_tensor_nth [OF len [OF that(1)] that(2), of tau] by simp
  show ?thesis using run lay el by simp
qed

subsection \<open>The training step\<close>

lemma q_values_forward:
  assumes "param_shapes net = dims n_state n_action" and "length x = n_state"
  shows "forward net x = Inr (q_values net x)" and "length (q_values net x) = n_action"
  using forward_dims [OF assms] by (auto simp: q_values_def)

lemma forward_batch_q_values:
  assumes "param_shapes net = dims n_state n_action"
    and "\<And>x. x \<in> set rows \<Longrightarrow> length x = n_state"
  shows "forward_batch net rows = Inr (map (q_values net) rows)"
  unfolding forward_batch_def
  by (rule map_err_Inr) (simp add: q_values_forward(1) [OF assms(1)] assms(2))

lemma gather_in_range:
  assumes "\<And>p. p \<in> set (zip q index) \<Longrightarrow> 0 \<le> snd p \<and> snd p < int (length (fst p))"
  shows "gather q index = Inr (map (\<lambda>(row, i). row ! nat i) (zip q index))"
  unfolding gather_def
proof (rule map_err_Inr)
  fix p assume "p \<in> set (zip q index)"
  from assms [OF this] show "gather_row p = Inr ((\<lambda>(row, i). row ! nat i) p)"
    by (cases p) (simp add: gather_row_def)
qed

lemma amax_spec:
  assumes "row \<noteq> []"
  shows "argmax row = Inr (amax row)" and "is_argmax row (amax row)"
proof -
  from argmax_spec [OF assms] obtain a where
    a: "argmax row = Inr a" "a < length row" "\<forall>j < length row. row ! j \<le> row ! a" by blast
  show "argmax row = Inr (amax row)" using a(1) by (simp add: amax_def)
  have "\<forall>v \<in> set row. v \<le> row ! a" using a(3) by (auto simp: in_set_conv_nth)
  then show "is_argmax row (amax row)"
    using a(1,2) by (simp add: is_argmax_def amax_def list_all_iff)
qed

lemma param_shapes_optimizer_step [simp]:
  "param_shapes (optimizer_step adam net) = param_shapes net"
  by (simp add: param_shapes_def named_parameters_def optimizer_step_def step_linear_def
      step_tensor_def)

lemma current_q_of_valid:
  assumes "param_shapes (policy_net d) = dims (state_size d) (action_size d)"
    and "\<And>x. x \<in> set sts \<Longrightarrow> length x = state_size d"
    and "\<And>a. a \<in> set acts \<Longrightarrow> 0 \<le> a \<and> a < int (action_size d)"
  shows "current_q_of d sts acts =
           Inr (map (\<lambda>(s, a). q_values (policy_net d) s ! nat a) (zip sts acts))"
proof -
  have fb: "forward_batch (policy_net d) sts = Inr (map (q_values (policy_net d)) sts)"
    using assms(1,2) by (rule forward_batch_q_values)
  have rng: "0 \<le> snd p \<and> snd p < int (length (fst p))"
    if "p \<in> set (zip (map (q_values (policy_net d)) sts) acts)" for p
  proof -
    obtain row a where p: "p = (row, a)" by (cases p)
    then have "row \<in> set (map (q_values (policy_net d)) sts)" "a \<in> set acts"
      using that by (auto dest: set_zip_leftD set_zip_rightD)
    then obtain s where "s \<in> set sts" "row = q_values (policy_net d) s" by auto
    then have "length row = action_size d"
      using q_values_forward(2) [OF assms(1)] assms(2) by simp
    then show ?thesis using assms(3) [OF \<open>a \<in> set acts\<close>] p by simp
  qed
  have "map (\<lambda>(row, i). row ! nat i) (zip (map (q_values (policy_net d)) sts) acts) =
        map (\<lambda>(s, a). q_values (policy_net d) s ! nat a) (zip sts acts)"
    by (simp add: zip_map1 case_prod_unfold)
  then show ?thesis
    using fb gather_in_range [OF rng] by (simp add: current_q_of_def)
qed

lemma next_q_of_valid:
  assumes "param_shapes (policy_net d) = dims (state_size d) (action_size d)"
    and "param_shapes (target_net d) = dims (state_size d) (action_size d)"
    and "0 < action_size d"
    and "\<And>x. x \<in> set nss \<Longrightarrow> length x = state_size d"
  shows "next_q_of d nss =
           Inr (map (\<lambda>s. q_values (target_net d) s ! amax (q_values (policy_net d) s)) nss)"
proof -
  let ?qp = "q_values (policy_net d)" and ?qt = "q_values (target_net d)"
  have fp: "forward_batch (policy_net d) nss = Inr (map ?qp nss)"
    using assms(1,4) by (rule forward_batch_q_values)
  have ft: "forward_batch (target_net d) nss = Inr (map ?qt nss)"
    using assms(2,4) by (rule forward_batch_q_values)
  have lp: "length (?qp s) = action_size d" if "s \<in> set nss" for s
    using q_values_forward(2) [OF assms(1)] assms(4) that by simp
  have lt: "length (?qt s) = action_size d" if "s \<in> set nss" for s
    using q_values_forward(2) [OF assms(2)] assms(4) that by simp
  have mi: "max_indices (map ?qp nss) = Inr (map amax (map ?qp nss))"
    unfolding max_indices_def
  proof (rule map_err_Inr)
    fix row assume "row \<in> set (map ?qp nss)"
    then obtain s where "s \<in> set nss" "row = ?qp s" by auto
    then have "length row = action_size d" using lp by simp
    then have "row \<noteq> []" using assms(3) by auto
    then show "argmax row = Inr (amax row)" by (rule amax_spec(1))
  qed
  have zipped: "zip (map ?qt nss) (map int (map amax (map ?qp nss))) =
          map (\<lambda>s. (?qt s, int (amax (?qp s)))) nss"
    by (induction nss) simp_all
  have rng: "0 \<le> snd p \<and> snd p < int (length (fst p))"
    if "p \<in> set (zip (map ?qt nss) (map int (map amax (map ?qp nss))))" for p
  proof -
    from that zipped obtain s where s: "s \<in> set nss" "p = (?qt s, int (amax (?qp s)))"
      by auto
    have "?qp s \<noteq> []" using lp [OF s(1)] assms(3) by auto
    then have "amax (?qp s) < length (?qp s)" using amax_spec(2) by (simp add: is_argmax_def)
    then show ?thesis using s lp lt by simp
  qed
  have "map (\<lambda>(row, i). row ! nat i) (zip (map ?qt nss) (map int (map amax (map ?qp nss)))) =
        map (\<lambda>s. ?qt s ! amax (?qp s)) nss"
    unfolding zipped by simp
  then show ?thesis
    using fp ft mi gather_in_range [OF rng] by (simp add: next_q_of_def)
qed

lemma train_valid:
  assumes pol: "param_shapes (policy_net d) = dims (state_size d) (action_size d)"
    and tgt: "param_shapes (target_net d) = dims (state_size d) (action_size d)"
    and act: "0 < action_size d" and pos: "0 < batch_size"
    and vb: "valid_batch d batch (nat batch_size)"
  shows "\<exists>d'. train d batch batch_size adam =
           Inr (mse_loss
                  (map (\<lambda>(s, a). q_values (policy_net d) s ! nat a)
                     (zip (states batch) (actions batch)))
                  (td_target (gamma d) (rewards batch)
                     (map (\<lambda>s. q_values (target_net d) s ! amax (q_values (policy_net d) s))
                        (next_states batch))
                     (map (\<lambda>dn. if dn then 1 else 0) (dones batch))), d') \<and>
           soft_update_target 0.005 (d\<lparr>policy_net := optimizer_step adam (policy_net d)\<rparr>) = Inr d'"
proof -
  let ?B = "nat batch_size"
  let ?stepped = "d\<lparr>policy_net := optimizer_step adam (policy_net d)\<rparr>"
  have len: "length (states batch) = ?B" "length (actions batch) = ?B"
    "length (rewards batch) = ?B" "length (next_states batch) = ?B" "length (dones batch) = ?B"
    using vb by (simp_all add: valid_batch_def batch_len_def)
  have ls: "\<And>x. x \<in> set (states batch) \<Longrightarrow> length x = state_size d"
    and ln: "\<And>x. x \<in> set (next_states batch) \<Longrightarrow> length x = state_size d"
    and la: "\<And>a. a \<in> set (actions batch) \<Longrightarrow> 0 \<le> a \<and> a < int (action_size d)"
    using vb by (simp_all add: valid_batch_def list_all_iff)
  have b1: "from_blob (concat (states batch)) ?B (state_size d) = Inr (states batch)"
    using ls len(1) by (rule from_blob_rows)
  have b2: "from_blob (concat (next_states batch)) ?B (state_size d) = Inr (next_states batch)"
    using ln len(4) by (rule from_blob_rows)
  have b3: "from_blob_col (actions batch) ?B = Inr (actions batch)"
    "from_blob_col (rewards batch) ?B = Inr (rewards batch)"
    "from_blob_col (map (\<lambda>dn. if dn then 1 else 0) (dones batch)) ?B =
       Inr (map (\<lambda>dn. if dn then (1::real) else 0) (dones batch))"
    using len by (simp_all add: from_blob_col_all)
  have cq: "current_q_of d (states batch) (actions batch) =
      Inr (map (\<lambda>(s, a). q_values (policy_net d) s ! nat a) (zip (states batch) (actions batch)))"
    using pol ls la by (rule current_q_of_valid)
  have nq: "next_q_of d (next_states batch) =
      Inr (map (\<lambda>s. q_values (target_net d) s ! amax (q_values (policy_net d) s))
             (next_states batch))"
    using pol tgt act ln by (rule next_q_of_valid)
  have "param_shapes (policy_net ?stepped) = param_shapes (target_net ?stepped)"
    using pol tgt by simp
  from soft_update_loop_same_shapes [OF this, of "0.005"]
  obtain d' where su: "soft_update_target 0.005 ?stepped = Inr d'"
    by (simp add: soft_update_target_def)
  have "\<not> batch_size < 0" "batch_size \<noteq> 0" using pos by simp_all
  then show ?thesis
    unfolding train_def Let_def
    by (simp only: if_False b1 b2 b3 cq nq su bind_err_Inr) simp
qed

subsection \<open>The example learner\<close>

lemma param_shapes_new: "param_shapes (new_DQNNet n_state n_action init) = dims n_state n_action"
  by (simp add: param_shapes_def named_parameters_def new_DQNNet_def new_Linear_def dims_def)

lemma sum_list_zero: "(\<And>x. x \<in> set xs \<Longrightarrow> f x = 0) \<Longrightarrow> (\<Sum>x\<leftarrow>xs. f x) = (0::real)"
  by (induction xs) simp_all

lemma Linear_forward_zero_weight:
  assumes "length x = n_in"
  shows "Linear_forward (new_Linear n_in n_out (\<lambda>i. 0) b0) x = Inr (map b0 [0..<n_out])"
proof -
  have idx: "j * n_in + i < n_out * n_in" if "j < n_out" "i < n_in" for i j
  proof -
    have "j * n_in + i < j * n_in + n_in" using that(2) by simp
    also have "\<dots> = Suc j * n_in" by simp
    also have "\<dots> \<le> n_out * n_in" using that(1) by (intro mult_le_mono1) simp
    finally show ?thesis .
  qed
  have "(\<Sum>i\<leftarrow>[0..<n_in]. x ! i * map (\<lambda>i. 0) [0..<n_out * n_in] ! (j * n_in + i)) = 0"
    if "j < n_out" for j
    by (rule sum_list_zero) (simp add: idx [OF that])
  then show ?thesis
    using assms by (simp add: Linear_forward_def new_Linear_def)
qed

lemma forward_const_net:
  assumes "length x = n_state" and "length qs = n_action"
  shows "forward (const_net n_state n_action qs) x = Inr qs"
proof -
  let ?net = "const_net n_state n_action qs"
  have sh: "param_shapes ?net = dims n_state n_action"
    by (simp add: const_net_def param_shapes_new)
  note s = param_shapes_dims [OF sh]
  from Linear_forward_shape [OF s(1) s(2) assms(1)] obtain h1 where
    h1: "Linear_forward (fc1 ?net) x = Inr h1" "length h1 = 64" by blast
  have "length (relu h1) = 64" using h1(2) by (simp add: relu_def)
  from Linear_forward_shape [OF s(3) s(4) this] obtain h2 where
    h2: "Linear_forward (fc2 ?net) (relu h1) = Inr h2" "length h2 = 64" by blast
  have l2: "length (relu h2) = 64" using h2(2) by (simp add: relu_def)
  have fc3: "fc3 ?net = new_Linear 64 n_action (\<lambda>i. 0) (\<lambda>i. qs ! i)"
    by (simp add: const_net_def new_DQNNet_def)
  have "Linear_forward (fc3 ?net) (relu h2) = Inr (map (\<lambda>i. qs ! i) [0..<n_action])"
    unfolding fc3 using l2 by (rule Linear_forward_zero_weight)
  also have "map (\<lambda>i. qs ! i) [0..<n_action] = qs"
    using assms(2) map_nth [of qs] by simp
  finally show ?thesis using h1(1) h2(1) by (simp add: forward_def)
qed

lemma q_values_const_net:
  "length x = n_state \<Longrightarrow> length qs = n_action \<Longrightarrow> q_values (const_net n_state n_action qs) x = qs"
  by (simp add: q_values_def forward_const_net)

lemma demo_dqn_shapes:
  "param_shapes (policy_net demo_dqn) = dims (state_size demo_dqn) (action_size demo_dqn)"
  "param_shapes (target_net demo_dqn) = dims (state_size demo_dqn) (action_size demo_dqn)"
  by (simp_all add: demo_dqn_def const_net_def param_shapes_new)

lemma demo_dqn_layout: "layout (policy_net demo_dqn) = layout (target_net demo_dqn)"
  by (simp add: demo_dqn_def const_net_def layout_def params_nth new_DQNNet_def new_Linear_def)

lemma demo_batch_valid: "valid_batch demo_dqn demo_batch (nat 1)"
  by (simp add: valid_batch_def batch_len_def demo_batch_def demo_dqn_def)

lemma demo_q [simp]:
  "q_values (policy_net demo_dqn) [0] = [1, 5]"
  "q_values (target_net demo_dqn) [0] = [7, 2]"
  by (simp_all add: demo_dqn_def q_values_const_net)

lemma is_argmax_demo: "is_argmax [1, 5] a \<Longrightarrow> a = 1"
  by (cases a) (auto simp: is_argmax_def less_Suc_eq)

subsection \<open>Saving and loading\<close>

lemma torch_load_after_save:
  "torch_load net path (torch_save src path fs) = Inr src"
  by (simp add: torch_load_def torch_save_def named_parameters_def set_param_def)

lemma new_DQN_fresh:
  "new_DQN n_state n_action learning_rate g init_policy init_target =
     Inr \<lparr>state_size = n_state, action_size = n_action, gamma = g,
          policy_net = new_DQNNet n_state n_action init_policy,
          target_net = new_DQNNet n_state n_action init_policy,
          optimizer_lrs = [learning_rate], current_lr = learning_rate\<rparr>"
  by (simp add: new_DQN_def copy_weights_same_shapes param_shapes_new)

lemma train_soft_update:
  assumes "train d batch batch_size adam = Inr (loss, d')"
  shows "soft_update_target 0.005 (d\<lparr>policy_net := optimizer_step adam (policy_net d)\<rparr>) = Inr d'"
  using assms
  by (auto simp: train_def bind_err_def Let_def split: if_splits sum.splits)

subsection \<open>Loss, soft update and persistence\<close>

text \<open>
  Claim C1. For a learner whose two networks have the shapes of its dimensions (at
  least one action) and a batch of \<open>batch_size > 0\<close> transitions that fit it, \<open>train\<close>
  succeeds, and there is an action per transition, an arg-max of the policy network's
  Q-values at the next observation, such that the loss is the mean squared error
  between the policy network's Q-value at the taken action and
  \<open>reward + gamma * Q\<^sub>t\<^sub>a\<^sub>r\<^sub>g\<^sub>e\<^sub>t(next observation)[that action] * (1 - done)\<close>.
\<close>

theorem train_double_dqn_target:
  assumes "param_shapes (policy_net d) = dims (state_size d) (action_size d)"
    and "param_shapes (target_net d) = dims (state_size d) (action_size d)"
    and "0 < action_size d" and "0 < batch_size"
    and "valid_batch d batch (nat batch_size)"
  shows "\<exists>loss d' next_actions.
           train d batch batch_size adam = Inr (loss, d') \<and>
           length next_actions = nat batch_size \<and>
           (\<forall>i < nat batch_size.
              is_argmax (q_values (policy_net d) (next_states batch ! i)) (next_actions ! i)) \<and>
           loss = mse_loss
             (map (\<lambda>i. q_values (policy_net d) (states batch ! i) ! nat (actions batch ! i))
                [0..<nat batch_size])
             (map (\<lambda>i. rewards batch ! i +
                        gamma d * (q_values (target_net d) (next_states batch ! i) ! (next_actions ! i)) *
                        (1 - (if dones batch ! i then 1 else 0)))
                [0..<nat batch_size])"
proof -
  let ?B = "nat batch_size"
  let ?qp = "q_values (policy_net d)" and ?qt = "q_values (target_net d)"
  let ?na = "map (\<lambda>s. amax (?qp s)) (next_states batch)"
  have len: "length (states batch) = ?B" "length (actions batch) = ?B"
    "length (rewards batch) = ?B" "length (next_states batch) = ?B" "length (dones batch) = ?B"
    using assms(5) by (simp_all add: valid_batch_def batch_len_def)
  have ln: "\<And>x. x \<in> set (next_states batch) \<Longrightarrow> length x = state_size d"
    using assms(5) by (simp add: valid_batch_def list_all_iff)
  from train_valid [OF assms, of adam] obtain d' where
    run: "train d batch batch_size adam =
           Inr (mse_loss
                  (map (\<lambda>(s, a). ?qp s ! nat a) (zip (states batch) (actions batch)))
                  (td_target (gamma d) (rewards batch)
                     (map (\<lambda>s. ?qt s ! amax (?qp s)) (next_states batch))
                     (map (\<lambda>dn. if dn then 1 else 0) (dones batch))), d')"
    by blast
  have cur: "map (\<lambda>(s, a). ?qp s ! nat a) (zip (states batch) (actions batch)) =
             map (\<lambda>i. ?qp (states batch ! i) ! nat (actions batch ! i)) [0..<?B]"
    using len by (intro nth_equalityI) simp_all
  have tq: "td_target (gamma d) (rewards batch)
              (map (\<lambda>s. ?qt s ! amax (?qp s)) (next_states batch))
              (map (\<lambda>dn. if dn then 1 else 0) (dones batch)) =
            map (\<lambda>i. rewards batch ! i + gamma d * (?qt (next_states batch ! i) ! (?na ! i)) *
                       (1 - (if dones batch ! i then 1 else 0))) [0..<?B]"
    unfolding td_target_def using len by (intro nth_equalityI) simp_all
  have am: "is_argmax (?qp (next_states batch ! i)) (?na ! i)" if "i < ?B" for i
  proof -
    have mem: "next_states batch ! i \<in> set (next_states batch)" using that len(4) by simp
    have "length (?qp (next_states batch ! i)) = action_size d"
      using q_values_forward(2) [OF assms(1)] ln [OF mem] by simp
    then have "?qp (next_states batch ! i) \<noteq> []" using assms(3) by auto
    then show ?thesis using amax_spec(2) that len(4) by simp
  qed
  have "length ?na = ?B" using len(4) by simp
  then show ?thesis using run am unfolding cur tq by blast
qed

theorem train_double_dqn_target_witness:
  "param_shapes (policy_net demo_dqn) = dims (state_size demo_dqn) (action_size demo_dqn) \<and>
   param_shapes (target_net demo_dqn) = dims (state_size demo_dqn) (action_size demo_dqn) \<and>
   0 < action_size demo_dqn \<and> (0::int) < 1 \<and> valid_batch demo_dqn demo_batch (nat 1) \<and>
   q_values (policy_net demo_dqn) [0] = [1, 5] \<and> q_values (target_net demo_dqn) [0] = [7, 2] \<and>
   (\<exists>d'. train demo_dqn demo_batch 1 demo_adam = Inr (1, d'))"
proof -
  have a: "0 < action_size demo_dqn" by (simp add: demo_dqn_def)
  have p: "(0::int) < 1" by simp
  from train_double_dqn_target [OF demo_dqn_shapes a p demo_batch_valid, of demo_adam]
  obtain loss d' next_actions where
    run: "train demo_dqn demo_batch 1 demo_adam = Inr (loss, d')"
    and am: "is_argmax (q_values (policy_net demo_dqn) (next_states demo_batch ! 0)) (next_actions ! 0)"
    and loss: "loss = mse_loss
             (map (\<lambda>i. q_values (policy_net demo_dqn) (states demo_batch ! i) ! nat (actions demo_batch ! i))
                [0..<nat 1])
             (map (\<lambda>i. rewards demo_batch ! i +
                        gamma demo_dqn * (q_values (target_net demo_dqn) (next_states demo_batch ! i) ! (next_actions ! i)) *
                        (1 - (if dones demo_batch ! i then 1 else 0)))
                [0..<nat 1])"
    by auto
  have "is_argmax [1, 5] (next_actions ! 0)"
    using am by (simp add: demo_batch_def)
  then have na: "next_actions ! 0 = 1" by (rule is_argmax_demo)
  have g: "gamma demo_dqn = 1 / 2" by (simp add: demo_dqn_def)
  have "loss = 1"
    unfolding loss by (simp add: na g demo_batch_def mse_loss_def)
  then show ?thesis using run demo_dqn_shapes a p demo_batch_valid by auto
qed

lemma upt_0_2: "[0..<2] = [0, Suc 0]"
  by (simp add: numeral_2_eq_2)

lemma demo_train: "\<exists>d'. train demo_dqn demo_batch 1 demo_adam = Inr (1, d')"
proof -
  have a: "0 < action_size demo_dqn" by (simp add: demo_dqn_def)
  have g: "gamma demo_dqn = 1 / 2" by (simp add: demo_dqn_def)
  have am: "amax [1, 5] = 1" by (simp add: amax_def argmax_def)
  from train_valid [OF demo_dqn_shapes a _ demo_batch_valid, of demo_adam]
  show ?thesis
    by (auto simp: demo_batch_def g am mse_loss_def td_target_def)
qed

lemma predict_cong:
  "policy_net a = policy_net b \<Longrightarrow> action_size a = action_size b \<Longrightarrow> predict a x = predict b x"
  by (simp add: predict_def cong del: if_weak_cong)

text \<open>
  Claim C2. Whenever \<open>train\<close> returns, on a learner whose networks have the same
  parameter shapes and sizes: the policy network is the one the optimizer step left,
  and every element of every parameter of the target network is
  \<open>0.005 * policy + (1 - 0.005) * previous target\<close>, with the policy value taken after
  the optimizer step. The optimizer writes the policy network only: the target
  network changes by this interpolation and by nothing else.
\<close>

theorem target_soft_updated_after_every_step:
  assumes "layout (policy_net d) = layout (target_net d)"
    and "train d batch batch_size adam = Inr (loss, d')"
  shows "policy_net d' = optimizer_step adam (policy_net d) \<and>
         layout (target_net d') = layout (target_net d) \<and>
         (\<forall>k < 6. \<forall>i < length (elems (params (target_net d) ! k)).
            elems (params (target_net d') ! k) ! i =
              0.005 * elems (params (policy_net d') ! k) ! i +
              (1 - 0.005) * elems (params (target_net d) ! k) ! i)"
proof -
  let ?stepped = "d\<lparr>policy_net := optimizer_step adam (policy_net d)\<rparr>"
  have su: "soft_update_target 0.005 ?stepped = Inr d'"
    using assms(2) by (rule train_soft_update)
  have "layout (policy_net ?stepped) = layout (target_net ?stepped)"
    using assms(1) by simp
  from soft_update_target_elementwise [OF this, of "0.005"] su
  show ?thesis by auto
qed

theorem target_soft_updated_after_every_step_witness:
  "layout (policy_net demo_dqn) = layout (target_net demo_dqn) \<and>
   (\<exists>d'. train demo_dqn demo_batch 1 demo_adam = Inr (1, d') \<and>
      policy_net d' = optimizer_step demo_adam (policy_net demo_dqn) \<and>
      elems (params (policy_net d') ! 5) = [1, 1] \<and>
      elems (params (target_net demo_dqn) ! 5) = [7, 2] \<and>
      elems (params (target_net d') ! 5) ! 0 = 0.005 * 1 + (1 - 0.005) * 7 \<and>
      elems (params (target_net d') ! 5) ! 1 = 0.005 * 1 + (1 - 0.005) * 2)"
proof -
  from demo_train obtain d' where run: "train demo_dqn demo_batch 1 demo_adam = Inr (1, d')"
    by blast
  note t = target_soft_updated_after_every_step [OF demo_dqn_layout run]
  have five: "(5::nat) < 6" by simp
  have tp: "elems (params (target_net demo_dqn) ! 5) = [7, 2]"
    by (simp add: params_nth demo_dqn_def const_net_def new_DQNNet_def new_Linear_def
        upt_0_2)
  have pp: "elems (params (policy_net d') ! 5) = [1, 1]"
    using t by (simp add: params_nth demo_dqn_def const_net_def new_DQNNet_def new_Linear_def
        optimizer_step_def step_linear_def step_tensor_def demo_adam_def
        upt_0_2)
  have e: "elems (params (target_net d') ! 5) ! i =
             0.005 * elems (params (policy_net d') ! 5) ! i +
             (1 - 0.005) * elems (params (target_net demo_dqn) ! 5) ! i" if "i < 2" for i
    using t five that tp by simp
  have "elems (params (target_net d') ! 5) ! 0 = 0.005 * 1 + (1 - 0.005) * 7"
    "elems (params (target_net d') ! 5) ! 1 = 0.005 * 1 + (1 - 0.005) * 2"
    using e [of 0] e [of 1] by (simp_all add: tp pp)
  then show ?thesis using demo_dqn_layout run t tp pp by blast
qed

text \<open>
  Claim C8. Let \<open>d1\<close> be a learner with the parameter shapes of its dimensions. A
  freshly constructed learner of the same dimensions exists; loading into it the file
  \<open>d1\<close> saved succeeds; the loaded policy network is the policy network of \<open>d1\<close>,
  tensor for tensor; the target network equals it; and \<open>predict\<close> gives, at every
  observation, what it gave on \<open>d1\<close>.
\<close>

theorem save_then_load_restores_policy:
  assumes "param_shapes (policy_net d1) = dims n_state n_action"
    and "action_size d1 = n_action"
  shows "\<exists>d2 d2'. new_DQN n_state n_action learning_rate g init_policy init_target = Inr d2 \<and>
           load_model d2 path (save_model d1 path fs) = Inr d2' \<and>
           policy_net d2' = policy_net d1 \<and>
           target_net d2' = policy_net d2' \<and>
           (\<forall>x. predict d2' x = predict d1 x)"
proof -
  let ?d2 = "\<lparr>state_size = n_state, action_size = n_action, gamma = g,
          policy_net = new_DQNNet n_state n_action init_policy,
          target_net = new_DQNNet n_state n_action init_policy,
          optimizer_lrs = [learning_rate], current_lr = learning_rate\<rparr>"
  let ?d2' = "?d2\<lparr>policy_net := policy_net d1, target_net := policy_net d1\<rparr>"
  have fresh: "new_DQN n_state n_action learning_rate g init_policy init_target = Inr ?d2"
    by (rule new_DQN_fresh)
  have ld: "torch_load (policy_net ?d2) path (save_model d1 path fs) = Inr (policy_net d1)"
    unfolding save_model_def by (rule torch_load_after_save)
  have "param_shapes (policy_net d1) = param_shapes (target_net ?d2)"
    using assms(1) by (simp add: param_shapes_new)
  then have cp: "copy_weights (policy_net d1) (target_net ?d2) = Inr (policy_net d1)"
    by (rule copy_weights_same_shapes)
  have load: "load_model ?d2 path (save_model d1 path fs) = Inr ?d2'"
    unfolding load_model_def ld bind_err_Inr cp by simp
  have "predict ?d2' x = predict d1 x" for x
    using assms(2) by (intro predict_cong) simp_all
  then show ?thesis using fresh load by (intro exI [of _ ?d2] exI [of _ ?d2']) simp
qed

theorem save_then_load_restores_policy_witness:
  "param_shapes (policy_net demo_dqn) = dims 1 2 \<and> action_size demo_dqn = 2 \<and>
   predict demo_dqn [0] = Inr [1, 5] \<and>
   (\<exists>d2 d2'. new_DQN 1 2 (1 / 1000) (99 / 100) (\<lambda>key i. 0) (\<lambda>key i. 1) = Inr d2 \<and>
      load_model d2 ''models/best_time.pt''
        (save_model demo_dqn ''models/best_time.pt'' Map.empty) = Inr d2' \<and>
      policy_net d2' = policy_net demo_dqn \<and> target_net d2' = policy_net demo_dqn \<and>
      predict d2' [0] = Inr [1, 5])"
proof -
  have s: "param_shapes (policy_net demo_dqn) = dims 1 2" and a: "action_size demo_dqn = 2"
    using demo_dqn_shapes(1) by (simp_all add: demo_dqn_def)
  have "forward (policy_net demo_dqn) [0] = Inr [1, 5]"
    by (simp add: demo_dqn_def forward_const_net)
  then have p: "predict demo_dqn [0] = Inr [1, 5]"
    by (simp add: predict_def a upt_0_2)
  from save_then_load_restores_policy [OF s a, of "1 / 1000" "99 / 100" "\<lambda>key i. 0" "\<lambda>key i. 1"
      "''models/best_time.pt''" Map.empty]
  obtain d2 d2' where
    "new_DQN 1 2 (1 / 1000) (99 / 100) (\<lambda>key i. 0) (\<lambda>key i. 1) = Inr d2"
    "load_model d2 ''models/best_time.pt''
        (save_model demo_dqn ''models/best_time.pt'' Map.empty) = Inr d2'"
    "policy_net d2' = policy_net demo_dqn" "target_net d2' = policy_net d2'"
    "predict d2' [0] = predict demo_dqn [0]"
    by blast
  then show ?thesis using s a p by auto
qed

subsection \<open>Learners the program builds are well shaped\<close>

text \<open>
  The shape conditions the theorems above assume hold of every learner \<open>new_DQN\<close>
  constructs, and \<open>train\<close> and \<open>load_model\<close> of a file saved from such a learner keep
  them.
\<close>

lemma new_DQN_well_shaped:
  assumes "new_DQN n_state n_action learning_rate g init_policy init_target = Inr d"
  shows "param_shapes (policy_net d) = dims (state_size d) (action_size d)"
    and "param_shapes (target_net d) = dims (state_size d) (action_size d)"
    and "layout (policy_net d) = layout (target_net d)"
  using assms by (auto simp: new_DQN_fresh param_shapes_new)

lemma soft_update_target_frame:
  assumes "soft_update_target tau d = Inr d'"
  shows "state_size d' = state_size d" and "action_size d' = action_size d"
    and "gamma d' = gamma d" and "policy_net d' = policy_net d"
    and "current_lr d' = current_lr d" and "optimizer_lrs d' = optimizer_lrs d"
  using assms by (auto simp: soft_update_target_def bind_err_def split: sum.splits)

lemma train_keeps_shapes:
  assumes "layout (policy_net d) = layout (target_net d)"
    and "train d batch batch_size adam = Inr (loss, d')"
  shows "state_size d' = state_size d" and "action_size d' = action_size d"
    and "param_shapes (policy_net d') = param_shapes (policy_net d)"
    and "param_shapes (target_net d') = param_shapes (target_net d)"
    and "layout (policy_net d') = layout (target_net d')"
proof -
  let ?stepped = "d\<lparr>policy_net := optimizer_step adam (policy_net d)\<rparr>"
  have su: "soft_update_target 0.005 ?stepped = Inr d'"
    using assms(2) by (rule train_soft_update)
  note fr = soft_update_target_frame [OF su]
  show "state_size d' = state_size d" "action_size d' = action_size d"
    using fr by simp_all
  show ps: "param_shapes (policy_net d') = param_shapes (policy_net d)"
    using fr(4) by simp
  have l0: "layout (policy_net ?stepped) = layout (target_net ?stepped)"
    using assms(1) by simp
  from soft_update_target_elementwise [OF l0, of "0.005"] su
  have lt: "layout (target_net d') = layout (target_net d)" by auto
  then show "param_shapes (target_net d') = param_shapes (target_net d)"
    by (rule layout_shapes)
  show "layout (policy_net d') = layout (target_net d')"
    using fr(4) lt assms(1) by simp
qed

section \<open>Properties of the greedy evaluation\<close>

declare greedy_episode.simps [simp del]


lemma map_err_const:
  "map_err (\<lambda>x. r) xs =
     (if xs = [] then Inr []
      else case r of Inl e \<Rightarrow> Inl e | Inr v \<Rightarrow> Inr (replicate (length xs) v))"
  by (induction xs) (auto simp: bind_err_def split: sum.splits)

lemma eval_result_replicate:
  "finishes (eval_result (replicate n s)) = (if raceFinished (race s) then int n else 0)"
  "finish_rate (eval_result (replicate n s)) = (if raceFinished (race s) \<and> 0 < n then 1 else 0)"
  "avg_score (eval_result (replicate n s)) = (if 0 < n then episode_score s else 0)"
  "avg_steps_finish (eval_result (replicate n s)) =
     (if raceFinished (race s) \<and> 0 < n then real (steps s) else 0)"
  by (simp_all add: eval_result_def Let_def sum_list_replicate)

text \<open>
  The evaluation episodes are copies of one another, so an evaluation counts no
  finish or as many as there are episodes: its finish rate is 0 or 1.
\<close>

lemma EvaluateGreedy_all_or_none:
  assumes "EvaluateGreedy d img template evalEpisodes max_steps DT = Inr ev"
  shows "(finishes ev = 0 \<and> finish_rate ev = 0) \<or>
         (0 < evalEpisodes \<and> finishes ev = evalEpisodes \<and> finish_rate ev = 1)"
proof (cases "0 < evalEpisodes")
  case False
  then have "ev = (eval_result [])\<lparr>episodes := evalEpisodes\<rparr>"
    using assms by (simp add: EvaluateGreedy_def bind_err_def)
  then show ?thesis by (simp add: eval_result_def)
next
  case True
  then have ne: "[0..<nat evalEpisodes] \<noteq> []" by simp
  from assms obtain s where
    ev: "ev = (eval_result (replicate (nat evalEpisodes) s))\<lparr>episodes := evalEpisodes\<rparr>"
    unfolding EvaluateGreedy_def map_err_const using ne
    by (auto simp: bind_err_def split: sum.splits)
  show ?thesis using True unfolding ev by (simp add: eval_result_replicate)
qed

subsection \<open>The learner that never moves\<close>









end
